theory Spec2Isabelle
  imports Complex_Main "HOL-Library.Word" "HOL-Library.Multiset"
begin

section \<open>The topology tree read by hwloc2nffg\<close>

text \<open>
  The program walks the object tree of hwloc 1.x (\<^verbatim>\<open>hwloc.h\<close>). Only the fields that
  \<^verbatim>\<open>hwloc2nffg.cpp\<close> reads are kept: the type tag, the OS index (an \<^verbatim>\<open>unsigned\<close>, where
  \<^verbatim>\<open>(unsigned) -1\<close> means that no index is known), the optional name (a \<^verbatim>\<open>char *\<close>
  that may be \<^verbatim>\<open>NULL\<close>), the info entries (name and value) and the children in the
  order of \<^verbatim>\<open>obj->children[0 .. arity-1]\<close>.
\<close>

datatype hwloc_obj_type_t =
    HWLOC_OBJ_SYSTEM
  | HWLOC_OBJ_MACHINE
  | HWLOC_OBJ_NODE
  | HWLOC_OBJ_SOCKET
  | HWLOC_OBJ_CACHE
  | HWLOC_OBJ_CORE
  | HWLOC_OBJ_PU
  | HWLOC_OBJ_GROUP
  | HWLOC_OBJ_MISC
  | HWLOC_OBJ_BRIDGE
  | HWLOC_OBJ_PCI_DEVICE
  | HWLOC_OBJ_OS_DEVICE

datatype hwloc_obj =
  Obj (obj_type: hwloc_obj_type_t)
      (os_index: "32 word")
      (obj_name: "string option")
      (infos: "(string \<times> string) list")
      (children: "hwloc_obj list")

section \<open>C library: \<^verbatim>\<open>strcasecmp\<close> and \<^verbatim>\<open>std::to_string\<close>\<close>

text \<open>
  \<^verbatim>\<open>tolower\<close> in the C locale (the program never calls \<^verbatim>\<open>setlocale\<close>): the
  letters A to Z (65 to 90) move to a to z, every other byte stays.
\<close>

definition tolower :: "char \<Rightarrow> char" where
  "tolower c =
     (let n = (of_char c :: nat) in if 65 \<le> n \<and> n \<le> 90 then char_of (n + 32) else c)"

text \<open>
  \<^verbatim>\<open>strcasecmp\<close> compares byte by byte after \<^verbatim>\<open>tolower\<close>; only the sign of the result is
  specified, so the model returns -1, 0 or 1.
\<close>

fun strcasecmp :: "string \<Rightarrow> string \<Rightarrow> int" where
  "strcasecmp [] [] = 0"
| "strcasecmp [] (y # ys) = - 1"
| "strcasecmp (x # xs) [] = 1"
| "strcasecmp (x # xs) (y # ys) =
     (if tolower x = tolower y then strcasecmp xs ys
      else if (of_char (tolower x) :: nat) < of_char (tolower y) then - 1 else 1)"

text \<open>\<^verbatim>\<open>std::to_string(unsigned)\<close>: the decimal digits, most significant first.\<close>

definition digit_char :: "nat \<Rightarrow> char" where
  "digit_char d = char_of (48 + d)"

fun to_string :: "nat \<Rightarrow> string" where
  "to_string n =
     (if n < 10 then [digit_char n] else to_string (n div 10) @ [digit_char (n mod 10)])"

declare to_string.simps [simp del]

section \<open>The identifier allocator (class \<^verbatim>\<open>ID\<close>)\<close>

text \<open>
  Both counters are \<^verbatim>\<open>unsigned int\<close>: 32-bit words, whose increment wraps around.
  \<^verbatim>\<open>lastfreeidfortype\<close> is a \<^verbatim>\<open>std::map<string, unsigned int>\<close>.
\<close>

record ID =
  lastfreeid :: "32 word"
  lastfreeidfortype :: "string \<rightharpoonup> 32 word"

definition new_ID :: ID where
  "new_ID = \<lparr>lastfreeid = 0, lastfreeidfortype = Map.empty\<rparr>"

text \<open>
  \<^verbatim>\<open>get_next_id_for_type\<close>: insert the type with 0 when it is not in the map, read the
  entry, then increment it. The result is the value read and the updated allocator.
\<close>

definition get_next_id_for_type :: "string \<Rightarrow> ID \<Rightarrow> 32 word \<times> ID" where
  "get_next_id_for_type nodetype s =
     (let m = (if lastfreeidfortype s nodetype = None
               then (lastfreeidfortype s)(nodetype \<mapsto> 0)
               else lastfreeidfortype s);
          n = (case m nodetype of Some v \<Rightarrow> v | None \<Rightarrow> 0)
      in (n, s\<lparr>lastfreeidfortype := m(nodetype \<mapsto> n + 1)\<rparr>))"

text \<open>\<^verbatim>\<open>get_next_global_id\<close>: \<^verbatim>\<open>return lastfreeid++\<close>.\<close>

definition get_next_global_id :: "ID \<Rightarrow> 32 word \<times> ID" where
  "get_next_global_id s = (lastfreeid s, s\<lparr>lastfreeid := lastfreeid s + 1\<rparr>)"

section \<open>Node classification\<close>

text \<open>
  The loop of \<^verbatim>\<open>network_sap\<close> over \<^verbatim>\<open>node->infos[0 .. infos_count-1]\<close>, returning at the
  first entry whose name compares equal to "address".
\<close>

fun network_sap_loop :: "(string \<times> string) list \<Rightarrow> bool" where
  "network_sap_loop [] = False"
| "network_sap_loop (info # rest) =
     (if strcasecmp (fst info) ''address'' = 0 then True else network_sap_loop rest)"

definition network_sap :: "hwloc_obj \<Rightarrow> bool" where
  "network_sap node =
     (if obj_type node = HWLOC_OBJ_OS_DEVICE then network_sap_loop (infos node) else False)"

definition required_by_type :: "hwloc_obj \<Rightarrow> bool" where
  "required_by_type node =
     (if obj_type node = HWLOC_OBJ_PU then True
      else if obj_type node = HWLOC_OBJ_OS_DEVICE then network_sap node
      else False)"

section \<open>Node naming\<close>

text \<open>
  \<^verbatim>\<open>get_node_type\<close> returns what hwloc's \<^verbatim>\<open>hwloc_obj_type_snprintf(.., obj, 0)\<close> prints
  for the object. That function belongs to the hwloc library and reads attributes of the
  object that the program never touches, so it is a parameter \<open>tn\<close> of the model: every
  result below holds for each such labelling.
\<close>

definition get_node_type :: "(hwloc_obj \<Rightarrow> string) \<Rightarrow> hwloc_obj \<Rightarrow> string" where
  "get_node_type tn obj = tn obj"

definition get_node_name :: "(hwloc_obj \<Rightarrow> string) \<Rightarrow> hwloc_obj \<Rightarrow> ID \<Rightarrow> string \<times> ID" where
  "get_node_name tn obj s =
     (if network_sap obj \<and> obj_name obj \<noteq> None then (the (obj_name obj), s)
      else
        (let type = get_node_type tn obj in
         if (obj_type obj = HWLOC_OBJ_PU \<or> obj_type obj = HWLOC_OBJ_CORE \<or>
             obj_type obj = HWLOC_OBJ_MACHINE) \<and> os_index obj \<noteq> - 1
         then (type @ ''#'' @ to_string (unat (os_index obj)), s)
         else (let (n, s') = get_next_id_for_type type s
               in (type @ ''!'' @ to_string (unat n), s'))))"

text \<open>
  The labels that hwloc prints for the object types whose label does not depend on an
  attribute (\<^verbatim>\<open>hwloc_obj_type_string\<close>); used for the concrete runs below.
\<close>

fun hwloc_obj_type_string :: "hwloc_obj_type_t \<Rightarrow> string" where
  "hwloc_obj_type_string HWLOC_OBJ_SYSTEM = ''System''"
| "hwloc_obj_type_string HWLOC_OBJ_MACHINE = ''Machine''"
| "hwloc_obj_type_string HWLOC_OBJ_NODE = ''NUMANode''"
| "hwloc_obj_type_string HWLOC_OBJ_SOCKET = ''Socket''"
| "hwloc_obj_type_string HWLOC_OBJ_CACHE = ''Cache''"
| "hwloc_obj_type_string HWLOC_OBJ_CORE = ''Core''"
| "hwloc_obj_type_string HWLOC_OBJ_PU = ''PU''"
| "hwloc_obj_type_string HWLOC_OBJ_GROUP = ''Group''"
| "hwloc_obj_type_string HWLOC_OBJ_MISC = ''Misc''"
| "hwloc_obj_type_string HWLOC_OBJ_BRIDGE = ''Bridge''"
| "hwloc_obj_type_string HWLOC_OBJ_PCI_DEVICE = ''PCIDev''"
| "hwloc_obj_type_string HWLOC_OBJ_OS_DEVICE = ''OSDev''"

definition plain_label :: "hwloc_obj \<Rightarrow> string" where
  "plain_label obj = hwloc_obj_type_string (obj_type obj)"

section \<open>JSON values (jsoncpp)\<close>

text \<open>
  \<^verbatim>\<open>Json::Value\<close>: an \<^verbatim>\<open>unsigned\<close> is stored as an unsigned value, an \<^verbatim>\<open>int\<close> literal as
  a signed one, a \<^verbatim>\<open>double\<close> literal as a real (kept as the decimal fraction written in the
  source). An object is its members, looked up by key.
\<close>

datatype json =
    JNull
  | JUInt "32 word"
  | JInt int
  | JReal rat
  | JString string
  | JArray "json list"
  | JObject "(string \<times> json) list"

fun member :: "string \<Rightarrow> json \<Rightarrow> json option" where
  "member k (JObject kvs) = map_of kvs k"
| "member k _ = None"

text \<open>
  A \<^verbatim>\<open>Json::Value\<close> that starts as null and is only ever changed by \<^verbatim>\<open>append\<close> is given
  by the list of the values appended so far: it is null while the list is empty and an
  array afterwards. The three output collections and the \<^verbatim>\<open>ports\<close> of a node are such
  values.
\<close>

definition json_of_appended :: "json list \<Rightarrow> json" where
  "json_of_appended xs = (if xs = [] then JNull else JArray xs)"

section \<open>The traversal \<^verbatim>\<open>add_nodes\<close>\<close>

type_synonym NodePorts = "(32 word \<times> string) list"

record acc =
  node_infras :: "json list"
  node_saps :: "json list"
  node_edges :: "json list"
  id_alloc :: ID

text \<open>
  The inner loop over the descriptors of one child (\<^verbatim>\<open>pit\<close>): one edge and one port of
  the node for each. The state is the node's \<^verbatim>\<open>ports\<close> and the accumulated outputs.
\<close>

fun link_ports :: "string \<Rightarrow> NodePorts \<Rightarrow> json list \<times> acc \<Rightarrow> json list \<times> acc" where
  "link_ports node_name [] (ports, st) = (ports, st)"
| "link_ports node_name (pit # pits) (ports, st) =
     (let (edge_id, id1) = get_next_global_id (id_alloc st);
          (port_gid, id2) = get_next_global_id id1;
          edge = JObject
            [(''id'', JUInt edge_id),
             (''src_node'', JString node_name),
             (''src_port'', JUInt port_gid),
             (''dst_node'', JString (snd pit)),
             (''dst_port'', JUInt (fst pit)),
             (''delay'', JReal (1 / 10)),
             (''bandwidth'', JInt 1000)];
          portid = JObject [(''id'', JUInt port_gid)]
      in link_ports node_name pits
           (ports @ [portid], st\<lparr>node_edges := node_edges st @ [edge], id_alloc := id2\<rparr>))"

text \<open>The outer loop over the children's results (\<^verbatim>\<open>ait\<close>).\<close>

fun link_allports :: "string \<Rightarrow> NodePorts list \<Rightarrow> json list \<times> acc \<Rightarrow> json list \<times> acc" where
  "link_allports node_name [] s = s"
| "link_allports node_name (ait # aits) s =
     link_allports node_name aits (link_ports node_name ait s)"

text \<open>
  The body of the \<^verbatim>\<open>if\<close> at lines 137 to 222: name the node, link it to the children's
  ports, allocate its own port, emit it as a SAP or as an infrastructure node, and return
  the own port with the name. (The \<^verbatim>\<open>Json::Value node\<close> of line 139 is never emitted: the
  inner \<^verbatim>\<open>node\<close> of line 185 hides it.)
\<close>

definition emit_node :: "hwloc_obj \<Rightarrow> string \<Rightarrow> json list \<Rightarrow> json" where
  "emit_node obj node_name ports =
     (if network_sap obj then
        JObject [(''name'', JString node_name), (''id'', JString node_name),
                 (''ports'', json_of_appended ports)]
      else if obj_type obj = HWLOC_OBJ_PU then
        JObject [(''name'', JString node_name), (''id'', JString node_name),
                 (''ports'', json_of_appended ports),
                 (''domain'', JString ''INTERNAL''),
                 (''type'', JString ''EE''),
                 (''supported'', JArray [JString ''headerDecompressor'']),
                 (''resources'', JObject
                    [(''cpu'', JInt 1), (''mem'', JInt 32000), (''storage'', JInt 150),
                     (''delay'', JReal (1 / 2)), (''bandwidth'', JInt 1000)])]
      else
        JObject [(''name'', JString node_name), (''id'', JString node_name),
                 (''ports'', json_of_appended ports),
                 (''domain'', JString ''INTERNAL''),
                 (''type'', JString ''SDN-SWITCH''),
                 (''resources'', JObject
                    [(''cpu'', JInt 0), (''mem'', JInt 0), (''storage'', JInt 0),
                     (''delay'', JReal (1 / 2)), (''bandwidth'', JInt 1000)])])"

definition add_nodes_body ::
  "(hwloc_obj \<Rightarrow> string) \<Rightarrow> hwloc_obj \<Rightarrow> NodePorts list \<Rightarrow> acc \<Rightarrow> NodePorts option \<times> acc" where
  "add_nodes_body tn obj allports st =
     (let (node_name, id1) = get_node_name tn obj (id_alloc st);
          st1 = st\<lparr>id_alloc := id1\<rparr>;
          (ports, st2) = (if allports \<noteq> [] then link_allports node_name allports ([], st1)
                          else ([], st1));
          (port_gid, id3) = get_next_global_id (id_alloc st2);
          ports' = ports @ [JObject [(''id'', JUInt port_gid)]];
          st3 = st2\<lparr>id_alloc := id3\<rparr>;
          st4 = (if network_sap obj
                 then st3\<lparr>node_saps := node_saps st3 @ [emit_node obj node_name ports']\<rparr>
                 else st3\<lparr>node_infras := node_infras st3 @ [emit_node obj node_name ports']\<rparr>)
      in (Some [(port_gid, node_name)], st4))"

text \<open>
  \<^verbatim>\<open>add_nodes\<close> itself: first the children in order, keeping the results that are not
  \<^verbatim>\<open>NULL\<close> (\<open>add_children\<close> is the \<^verbatim>\<open>for\<close> loop of lines 130 to 135), then the node.
  The parameters \<^verbatim>\<open>topology\<close> and \<^verbatim>\<open>depth\<close> are never read.
\<close>

fun add_nodes :: "(hwloc_obj \<Rightarrow> string) \<Rightarrow> hwloc_obj \<Rightarrow> acc \<Rightarrow> NodePorts option \<times> acc"
  and add_children :: "(hwloc_obj \<Rightarrow> string) \<Rightarrow> hwloc_obj list \<Rightarrow> acc \<Rightarrow> NodePorts list \<times> acc"
where
  "add_nodes tn (Obj ty oi nm infs cs) st =
     (let (allports, st1) = add_children tn cs st in
      if allports \<noteq> [] \<or> required_by_type (Obj ty oi nm infs cs)
      then add_nodes_body tn (Obj ty oi nm infs cs) allports st1
      else (None, st1))"
| "add_children tn [] st = ([], st)"
| "add_children tn (c # cs) st =
     (let (ports, st1) = add_nodes tn c st;
          (rest, st2) = add_children tn cs st1
      in (case ports of None \<Rightarrow> (rest, st2) | Some p \<Rightarrow> (p # rest, st2)))"

text \<open>
  \<^verbatim>\<open>add_topology_tree\<close>, from the loaded topology on: a fresh \<^verbatim>\<open>ID\<close>, three null
  collections, one call of \<^verbatim>\<open>add_nodes\<close> on the root object.
\<close>

definition init_acc :: acc where
  "init_acc = \<lparr>node_infras = [], node_saps = [], node_edges = [], id_alloc = new_ID\<rparr>"

definition add_topology_tree :: "(hwloc_obj \<Rightarrow> string) \<Rightarrow> hwloc_obj \<Rightarrow> acc" where
  "add_topology_tree tn root_obj = snd (add_nodes tn root_obj init_acc)"

section \<open>Vocabulary for the properties\<close>

text \<open>The two records that the loops build: a port entry and an edge.\<close>

definition mk_port :: "32 word \<Rightarrow> json" where
  "mk_port p = JObject [(''id'', JUInt p)]"

definition mk_edge :: "32 word \<Rightarrow> string \<Rightarrow> 32 word \<Rightarrow> 32 word \<times> string \<Rightarrow> json" where
  "mk_edge e nm p pit = JObject
     [(''id'', JUInt e),
      (''src_node'', JString nm),
      (''src_port'', JUInt p),
      (''dst_node'', JString (snd pit)),
      (''dst_port'', JUInt (fst pit)),
      (''delay'', JReal (1 / 10)),
      (''bandwidth'', JInt 1000)]"

text \<open>
  What the two loops add when the counter stands at \<open>c\<close>: for the \<open>k\<close>-th descriptor
  the edge takes the id \<open>c + 2k\<close> and its source port the id \<open>c + 2k + 1\<close>.
\<close>

definition new_ports :: "32 word \<Rightarrow> nat \<Rightarrow> json list" where
  "new_ports c n = map (\<lambda>k. mk_port (c + 2 * of_nat k + 1)) [0..<n]"

definition new_edges :: "32 word \<Rightarrow> string \<Rightarrow> NodePorts \<Rightarrow> json list" where
  "new_edges c nm pits =
     map (\<lambda>k. mk_edge (c + 2 * of_nat k) nm (c + 2 * of_nat k + 1) (pits ! k)) [0..<length pits]"

definition node_name_of :: "(hwloc_obj \<Rightarrow> string) \<Rightarrow> hwloc_obj \<Rightarrow> acc \<Rightarrow> string" where
  "node_name_of tn obj st = fst (get_node_name tn obj (id_alloc st))"

definition node_record ::
  "(hwloc_obj \<Rightarrow> string) \<Rightarrow> hwloc_obj \<Rightarrow> NodePorts list \<Rightarrow> acc \<Rightarrow> json" where
  "node_record tn obj allports st =
     (let c = lastfreeid (id_alloc st); n = length (concat allports)
      in emit_node obj (node_name_of tn obj st) (new_ports c n @ [mk_port (c + 2 * of_nat n)]))"

text \<open>
  A node is kept when it is required or some node below it is; \<open>descendants\<close> lists the
  nodes strictly below a node.
\<close>

fun required_below :: "hwloc_obj \<Rightarrow> bool" and required_among :: "hwloc_obj list \<Rightarrow> bool" where
  "required_below (Obj ty oi nm infs cs) =
     (required_by_type (Obj ty oi nm infs cs) \<or> required_among cs)"
| "required_among [] = False"
| "required_among (c # cs) = (required_below c \<or> required_among cs)"

fun descendants :: "hwloc_obj \<Rightarrow> hwloc_obj list"
  and descendants_list :: "hwloc_obj list \<Rightarrow> hwloc_obj list" where
  "descendants (Obj ty oi nm infs cs) = descendants_list cs"
| "descendants_list [] = []"
| "descendants_list (c # cs) = c # descendants c @ descendants_list cs"

text \<open>
  Reading the output: the string or unsigned value of a member, the port ids that a node
  record lists, and over a whole state the port ids, the edge ids, the node names and the
  (source, destination) pairs of the edges.
\<close>

definition str_member :: "string \<Rightarrow> json \<Rightarrow> string list" where
  "str_member k j = (case member k j of Some (JString s) \<Rightarrow> [s] | _ \<Rightarrow> [])"

definition uint_member :: "string \<Rightarrow> json \<Rightarrow> 32 word list" where
  "uint_member k j = (case member k j of Some (JUInt w) \<Rightarrow> [w] | _ \<Rightarrow> [])"

definition node_port_ids :: "json \<Rightarrow> 32 word list" where
  "node_port_ids r =
     (case member ''ports'' r of
        Some (JArray ps) \<Rightarrow> concat (map (uint_member ''id'') ps)
      | _ \<Rightarrow> [])"

definition port_ids :: "acc \<Rightarrow> 32 word list" where
  "port_ids st = concat (map node_port_ids (node_saps st @ node_infras st))"

definition edge_ids :: "acc \<Rightarrow> 32 word list" where
  "edge_ids st = concat (map (uint_member ''id'') (node_edges st))"

definition node_names :: "acc \<Rightarrow> string list" where
  "node_names st = concat (map (str_member ''name'') (node_saps st @ node_infras st))"

definition edge_links :: "acc \<Rightarrow> (string \<times> string) list" where
  "edge_links st =
     concat (map (\<lambda>e. List.product (str_member ''src_node'' e) (str_member ''dst_node'' e))
       (node_edges st))"

text \<open>
  The ids of a run. \<open>fresh_range c n\<close> is the sequence of the next \<open>n\<close> values of the
  global counter when it stands at \<open>c\<close>. \<open>ids_drawn\<close> counts the calls of
  \<^verbatim>\<open>get_next_global_id\<close> that \<^verbatim>\<open>add_nodes\<close> makes on a tree: a kept node draws one id
  for its own port and two (edge and source port) for each kept child.
\<close>

definition fresh_range :: "32 word \<Rightarrow> nat \<Rightarrow> 32 word list" where
  "fresh_range c n = map (\<lambda>k. c + of_nat k) [0..<n]"

fun ids_drawn :: "hwloc_obj \<Rightarrow> nat" and ids_drawn_list :: "hwloc_obj list \<Rightarrow> nat" where
  "ids_drawn (Obj ty oi nm infs cs) =
     ids_drawn_list cs +
     (if required_below (Obj ty oi nm infs cs)
      then 2 * length (filter required_below cs) + 1 else 0)"
| "ids_drawn_list [] = 0"
| "ids_drawn_list (c # cs) = ids_drawn c + ids_drawn_list cs"

definition all_ids :: "acc \<Rightarrow> 32 word list" where
  "all_ids st = port_ids st @ edge_ids st"

text \<open>
  Names in the output: \<open>named\<close> is the set of strings that some emitted node record
  carries both as its id and as its name; \<open>well_named\<close> says that every node record is of
  that kind and that both ends of every edge are such strings. \<open>stub_names\<close> are the node
  names in the descriptors returned by children.
\<close>

definition named :: "acc \<Rightarrow> string set" where
  "named st = {nm. \<exists>r \<in> set (node_saps st @ node_infras st).
     member ''id'' r = Some (JString nm) \<and> member ''name'' r = Some (JString nm)}"

definition well_named :: "acc \<Rightarrow> bool" where
  "well_named st \<longleftrightarrow>
     (\<forall>r \<in> set (node_saps st @ node_infras st).
        \<exists>nm. member ''id'' r = Some (JString nm) \<and> member ''name'' r = Some (JString nm)) \<and>
     (\<forall>e \<in> set (node_edges st).
        \<exists>a b. member ''src_node'' e = Some (JString a) \<and> member ''dst_node'' e = Some (JString b)
          \<and> a \<in> named st \<and> b \<in> named st)"

definition stub_names :: "NodePorts list \<Rightarrow> string set" where
  "stub_names allports = snd ` set (concat allports)"

text \<open>
  Edges read as undirected links between node names; \<open>attached st R\<close> says that every
  emitted node name reaches some name in \<open>R\<close> along such links.
\<close>

definition und_links :: "acc \<Rightarrow> (string \<times> string) set" where
  "und_links st = set (edge_links st) \<union> (set (edge_links st))\<inverse>"

definition attached :: "acc \<Rightarrow> string set \<Rightarrow> bool" where
  "attached st R \<longleftrightarrow> (\<forall>x \<in> set (node_names st). \<exists>r \<in> R. (x, r) \<in> (und_links st)\<^sup>*)"

text \<open>
  The same at the level of the emitted records: a record owns a descriptor when it lists
  the port id and bears the node name; an edge joins the record that owns its source port
  and source node name to the record that owns its destination port and node name.
  \<open>hooked st R\<close> says that every emitted record reaches, along such joins in either
  direction, a record that owns a descriptor in \<open>R\<close>.
\<close>

definition records :: "acc \<Rightarrow> json list" where
  "records st = node_saps st @ node_infras st"

definition owns :: "json \<Rightarrow> 32 word \<times> string \<Rightarrow> bool" where
  "owns r pit \<longleftrightarrow> fst pit \<in> set (node_port_ids r) \<and> str_member ''name'' r = [snd pit]"

definition joined :: "acc \<Rightarrow> (json \<times> json) set" where
  "joined st =
     {(r1, r2). r1 \<in> set (records st) \<and> r2 \<in> set (records st) \<and>
        (\<exists>e \<in> set (node_edges st). \<exists>p a q b.
           uint_member ''src_port'' e = [p] \<and> str_member ''src_node'' e = [a] \<and>
           uint_member ''dst_port'' e = [q] \<and> str_member ''dst_node'' e = [b] \<and>
           owns r1 (p, a) \<and> owns r2 (q, b))}"

definition und_joined :: "acc \<Rightarrow> (json \<times> json) set" where
  "und_joined st = joined st \<union> (joined st)\<inverse>"

definition hooked :: "acc \<Rightarrow> (32 word \<times> string) set \<Rightarrow> bool" where
  "hooked st R \<longleftrightarrow>
     (\<forall>r \<in> set (records st). \<exists>pit \<in> R. \<exists>r' \<in> set (records st).
        owns r' pit \<and> (r, r') \<in> (und_joined st)\<^sup>*)"

text \<open>
  Adding a constant \<open>d\<close> to every unsigned value (the ids) of a JSON value, of the
  descriptors, of a state and of a result of \<^verbatim>\<open>add_nodes\<close>; \<open>run_from\<close> is one run on
  empty collections with a given allocator.
\<close>

primrec shift_json :: "32 word \<Rightarrow> json \<Rightarrow> json" where
  "shift_json d JNull = JNull"
| "shift_json d (JUInt w) = JUInt (w + d)"
| "shift_json d (JInt i) = JInt i"
| "shift_json d (JReal x) = JReal x"
| "shift_json d (JString s) = JString s"
| "shift_json d (JArray xs) = JArray (map (shift_json d) xs)"
| "shift_json d (JObject kvs) = JObject (map (map_prod id (shift_json d)) kvs)"

definition shift_ports :: "32 word \<Rightarrow> NodePorts \<Rightarrow> NodePorts" where
  "shift_ports d ps = map (\<lambda>pit. (fst pit + d, snd pit)) ps"

definition shift_acc :: "32 word \<Rightarrow> acc \<Rightarrow> acc" where
  "shift_acc d st =
     st\<lparr>node_infras := map (shift_json d) (node_infras st),
        node_saps := map (shift_json d) (node_saps st),
        node_edges := map (shift_json d) (node_edges st),
        id_alloc := (id_alloc st)\<lparr>lastfreeid := lastfreeid (id_alloc st) + d\<rparr>\<rparr>"

definition shift_result :: "32 word \<Rightarrow> NodePorts option \<times> acc \<Rightarrow> NodePorts option \<times> acc" where
  "shift_result d res = (map_option (shift_ports d) (fst res), shift_acc d (snd res))"

definition run_from :: "(hwloc_obj \<Rightarrow> string) \<Rightarrow> hwloc_obj \<Rightarrow> ID \<Rightarrow> NodePorts option \<times> acc" where
  "run_from tn obj a =
     add_nodes tn obj \<lparr>node_infras = [], node_saps = [], node_edges = [], id_alloc = a\<rparr>"

text \<open>Two concrete trees: a machine with \<open>n\<close> PUs directly below it, and a small machine.\<close>

definition wide_machine :: "nat \<Rightarrow> hwloc_obj" where
  "wide_machine n = Obj HWLOC_OBJ_MACHINE 0 None [] (replicate n (Obj HWLOC_OBJ_PU 0 None [] []))"

definition small_machine :: hwloc_obj where
  "small_machine =
     Obj HWLOC_OBJ_MACHINE 0 None []
       [Obj HWLOC_OBJ_SOCKET 0 None [] [Obj HWLOC_OBJ_PU 0 None [] []],
        Obj HWLOC_OBJ_OS_DEVICE (- 1) (Some ''eth0'') [(''Address'', ''00:11:22:33:44:55'')] [],
        Obj HWLOC_OBJ_OS_DEVICE (- 1) (Some ''sda'') [] []]"

section \<open>The loops in closed form\<close>

lemma new_ports_Suc: "new_ports c (Suc n) = mk_port (c + 1) # new_ports (c + 2) n"
  unfolding new_ports_def by (simp add: map_upt_Suc del: upt_Suc algebra_simps)

lemma new_edges_Cons:
  "new_edges c nm (pit # pits) = mk_edge c nm (c + 1) pit # new_edges (c + 2) nm pits"
  unfolding new_edges_def by (simp add: map_upt_Suc del: upt_Suc add: algebra_simps)

lemma new_ports_0 [simp]: "new_ports c 0 = []" by (simp add: new_ports_def)
lemma new_edges_Nil [simp]: "new_edges c nm [] = []" by (simp add: new_edges_def)

lemma link_ports_closed:
  "link_ports nm pits (ports, st) =
     (ports @ new_ports (lastfreeid (id_alloc st)) (length pits),
      st\<lparr>node_edges := node_edges st @ new_edges (lastfreeid (id_alloc st)) nm pits,
         id_alloc := (id_alloc st)\<lparr>lastfreeid := lastfreeid (id_alloc st) + 2 * of_nat (length pits)\<rparr>\<rparr>)"
proof (induction pits arbitrary: ports st)
  case Nil
  show ?case by simp
next
  case (Cons pit pits)
  show ?case
    by (simp add: Cons.IH get_next_global_id_def new_ports_Suc new_edges_Cons
        mk_port_def [symmetric] mk_edge_def [symmetric] algebra_simps)
qed

lemma link_allports_concat:
  "link_allports nm allports s = link_ports nm (concat allports) s"
proof (induction allports arbitrary: s)
  case Nil
  show ?case by (cases s) simp
next
  case (Cons a as)
  obtain ports st where s: "s = (ports, st)" by (cases s)
  have app: "link_ports nm (xs @ ys) (p, t) = link_ports nm ys (link_ports nm xs (p, t))" for xs ys p t
    by (induction xs arbitrary: p t) (simp_all add: Let_def split: prod.splits)
  show ?case by (simp add: Cons.IH s app)
qed

lemma get_node_name_lastfreeid [simp]:
  "lastfreeid (snd (get_node_name tn obj s)) = lastfreeid s"
  by (simp add: get_node_name_def get_next_id_for_type_def Let_def split: prod.splits)

lemma body_fst:
  "fst (add_nodes_body tn obj allports st) =
     Some [(lastfreeid (id_alloc st) + 2 * of_nat (length (concat allports)), node_name_of tn obj st)]"
proof -
  obtain nm id1 where g: "get_node_name tn obj (id_alloc st) = (nm, id1)"
    by (cases "get_node_name tn obj (id_alloc st)")
  have l: "lastfreeid id1 = lastfreeid (id_alloc st)"
    using get_node_name_lastfreeid [of tn obj "id_alloc st"] by (simp add: g)
  show ?thesis
    by (simp add: g l add_nodes_body_def node_name_of_def link_allports_concat link_ports_closed
      get_next_global_id_def Let_def split: prod.splits)
qed

lemma body_edges:
  "node_edges (snd (add_nodes_body tn obj allports st)) =
     node_edges st @ new_edges (lastfreeid (id_alloc st)) (node_name_of tn obj st) (concat allports)"
proof -
  obtain nm id1 where g: "get_node_name tn obj (id_alloc st) = (nm, id1)"
    by (cases "get_node_name tn obj (id_alloc st)")
  have l: "lastfreeid id1 = lastfreeid (id_alloc st)"
    using get_node_name_lastfreeid [of tn obj "id_alloc st"] by (simp add: g)
  show ?thesis
    by (simp add: g l add_nodes_body_def node_name_of_def link_allports_concat link_ports_closed
      get_next_global_id_def Let_def split: prod.splits)
qed

lemma body_saps:
  "node_saps (snd (add_nodes_body tn obj allports st)) =
     (if network_sap obj then node_saps st @ [node_record tn obj allports st] else node_saps st)"
proof -
  obtain nm id1 where g: "get_node_name tn obj (id_alloc st) = (nm, id1)"
    by (cases "get_node_name tn obj (id_alloc st)")
  have l: "lastfreeid id1 = lastfreeid (id_alloc st)"
    using get_node_name_lastfreeid [of tn obj "id_alloc st"] by (simp add: g)
  show ?thesis
    by (simp add: g l add_nodes_body_def node_name_of_def node_record_def link_allports_concat
      link_ports_closed get_next_global_id_def mk_port_def [symmetric] Let_def split: prod.splits)
qed

lemma body_infras:
  "node_infras (snd (add_nodes_body tn obj allports st)) =
     (if network_sap obj then node_infras st else node_infras st @ [node_record tn obj allports st])"
proof -
  obtain nm id1 where g: "get_node_name tn obj (id_alloc st) = (nm, id1)"
    by (cases "get_node_name tn obj (id_alloc st)")
  have l: "lastfreeid id1 = lastfreeid (id_alloc st)"
    using get_node_name_lastfreeid [of tn obj "id_alloc st"] by (simp add: g)
  show ?thesis
    by (simp add: g l add_nodes_body_def node_name_of_def node_record_def link_allports_concat
      link_ports_closed get_next_global_id_def mk_port_def [symmetric] Let_def split: prod.splits)
qed

lemma body_lastfreeid:
  "lastfreeid (id_alloc (snd (add_nodes_body tn obj allports st))) =
     lastfreeid (id_alloc st) + 2 * of_nat (length (concat allports)) + 1"
proof -
  obtain nm id1 where g: "get_node_name tn obj (id_alloc st) = (nm, id1)"
    by (cases "get_node_name tn obj (id_alloc st)")
  have l: "lastfreeid id1 = lastfreeid (id_alloc st)"
    using get_node_name_lastfreeid [of tn obj "id_alloc st"] by (simp add: g)
  show ?thesis
    by (simp add: g l add_nodes_body_def link_allports_concat link_ports_closed
      get_next_global_id_def Let_def split: prod.splits)
qed

lemma body_fortype:
  "lastfreeidfortype (id_alloc (snd (add_nodes_body tn obj allports st))) =
     lastfreeidfortype (snd (get_node_name tn obj (id_alloc st)))"
  by (simp add: add_nodes_body_def link_allports_concat link_ports_closed
      get_next_global_id_def Let_def split: prod.splits)

lemma add_nodes_unfold:
  "add_nodes tn obj st =
     (let (allports, st1) = add_children tn (children obj) st in
      if allports \<noteq> [] \<or> required_by_type obj
      then add_nodes_body tn obj allports st1 else (None, st1))"
  by (cases obj) auto

section \<open>Classification\<close>

lemma tolower_address: "map tolower ''address'' = ''address''"
  by (simp add: tolower_def)

lemma strcasecmp_0_iff: "strcasecmp a b = 0 \<longleftrightarrow> map tolower a = map tolower b"
  by (induction a b rule: strcasecmp.induct) auto

lemma strcasecmp_address: "strcasecmp a ''address'' = 0 \<longleftrightarrow> map tolower a = ''address''"
  using strcasecmp_0_iff [of a "''address''"] by (simp only: tolower_address)

lemma network_sap_loop_iff:
  "network_sap_loop is \<longleftrightarrow> (\<exists>info \<in> set is. map tolower (fst info) = ''address'')"
  by (induction "is") (simp_all only: network_sap_loop.simps strcasecmp_address list.set, auto)

lemma network_sap_examples:
  "network_sap (Obj HWLOC_OBJ_OS_DEVICE (- 1) (Some ''eth0'')
      [(''Type'', ''Network''), (''address'', ''00:11:22:33:44:55'')] [])"
  "network_sap (Obj HWLOC_OBJ_OS_DEVICE (- 1) (Some ''eth0'') [(''ADDRESS'', ''00:11:22:33:44:55'')] [])"
  "network_sap (Obj HWLOC_OBJ_OS_DEVICE (- 1) None [(''AdDrEsS'', ''00:11:22:33:44:55'')] [])"
  "\<not> network_sap (Obj HWLOC_OBJ_OS_DEVICE (- 1) (Some ''sda'') [(''Type'', ''Disk'')] [])"
  "\<not> network_sap (Obj HWLOC_OBJ_PCI_DEVICE (- 1) None [(''address'', ''00:11:22:33:44:55'')] [])"
  "\<not> required_by_type (Obj HWLOC_OBJ_OS_DEVICE (- 1) (Some ''sda'') [(''Type'', ''Disk'')] [])"
  by code_simp+

text \<open>
  Claim C7. \<open>network_sap\<close> holds exactly for an OS device that has an info entry whose
  name equals "address" when case is ignored; \<open>required_by_type\<close> holds for every PU,
  for an OS device exactly when it is a network SAP, and for no other type.
\<close>

theorem network_sap_required_iff:
  "(network_sap node \<longleftrightarrow>
      obj_type node = HWLOC_OBJ_OS_DEVICE \<and>
      (\<exists>info \<in> set (infos node). map tolower (fst info) = ''address''))
   \<and> (required_by_type node \<longleftrightarrow>
      obj_type node = HWLOC_OBJ_PU \<or>
      (obj_type node = HWLOC_OBJ_OS_DEVICE \<and> network_sap node))"
  by (auto simp: network_sap_def required_by_type_def network_sap_loop_iff)

section \<open>Pruning\<close>

lemma required_among_iff: "required_among cs \<longleftrightarrow> (\<exists>c \<in> set cs. required_below c)"
  by (induction cs) auto

lemma required_below_descendants:
  "required_below obj \<longleftrightarrow> required_by_type obj \<or> (\<exists>d \<in> set (descendants obj). required_by_type d)"
  and required_among_descendants:
  "required_among cs \<longleftrightarrow> (\<exists>d \<in> set (descendants_list cs). required_by_type d)"
  by (induction obj and cs rule: required_below_required_among.induct) auto

lemma add_nodes_pruned:
  "\<not> required_below obj \<Longrightarrow> add_nodes tn obj st = (None, st)"
  and add_children_pruned:
  "\<not> required_among cs \<Longrightarrow> add_children tn cs st = ([], st)"
  by (induction tn obj st and tn cs st rule: add_nodes_add_children.induct) auto

lemma add_nodes_body_Some: "\<exists>p nm. fst (add_nodes_body tn obj allports st) = Some [(p, nm)]"
  by (simp add: add_nodes_body_def Let_def split: prod.splits)

lemma add_nodes_kept:
  "required_below obj \<Longrightarrow> \<exists>p nm. fst (add_nodes tn obj st) = Some [(p, nm)]"
  and add_children_kept:
  "required_among cs \<Longrightarrow> fst (add_children tn cs st) \<noteq> []"
proof (induction tn obj st and tn cs st rule: add_nodes_add_children.induct)
  case (1 tn ty oi nm infs cs st)
  then show ?case
    using add_nodes_body_Some by (auto split: prod.splits)
next
  case (2 tn st)
  then show ?case by simp
next
  case (3 tn c cs st)
  show ?case
  proof (cases "required_below c")
    case True
    with 3(1) show ?thesis by (auto split: prod.splits option.splits)
  next
    case False
    with 3 show ?thesis by (auto simp: add_nodes_pruned split: prod.splits option.splits)
  qed
qed

section \<open>Node names\<close>

lemma to_string_digits:
  "to_string 0 = ''0''" "to_string 1 = ''1''" "to_string 2 = ''2''" "to_string 3 = ''3''"
  "to_string (Suc 0) = ''1''"
  by code_simp+

lemma get_node_name_fst_lastfreeid:
  "fst (get_node_name tn obj (s\<lparr>lastfreeid := c\<rparr>)) = fst (get_node_name tn obj s)"
  by (auto simp: get_node_name_def get_next_id_for_type_def get_node_type_def Let_def
      split: prod.splits option.splits)

text \<open>
  Claim C6. A network SAP with a name keeps that name; otherwise a PU, core or machine
  with a valid OS index is named label#index (a PU with index 3 and label "PU" is "PU#3"
  whatever the allocator holds), and every other node is named label!n with n from the
  per-label counter, so the first two unnamed, indexless nodes labelled "Bus" are "Bus!0"
  and "Bus!1".
\<close>

theorem node_naming:
  "(network_sap obj \<and> obj_name obj = Some given \<longrightarrow> get_node_name tn obj s = (given, s))
   \<and> ((obj_type obj = HWLOC_OBJ_PU \<or> obj_type obj = HWLOC_OBJ_CORE \<or>
        obj_type obj = HWLOC_OBJ_MACHINE) \<and> os_index obj \<noteq> - 1
      \<longrightarrow> get_node_name tn obj s = (tn obj @ ''#'' @ to_string (unat (os_index obj)), s))
   \<and> (\<not> (network_sap obj \<and> obj_name obj \<noteq> None) \<and>
       \<not> ((obj_type obj = HWLOC_OBJ_PU \<or> obj_type obj = HWLOC_OBJ_CORE \<or>
            obj_type obj = HWLOC_OBJ_MACHINE) \<and> os_index obj \<noteq> - 1)
      \<longrightarrow> get_node_name tn obj s =
            (tn obj @ ''!'' @ to_string (unat (fst (get_next_id_for_type (tn obj) s))),
             snd (get_next_id_for_type (tn obj) s)))
   \<and> (obj_type obj = HWLOC_OBJ_PU \<and> os_index obj = 3 \<and> tn obj = ''PU''
      \<longrightarrow> get_node_name tn obj s = (''PU#3'', s))
   \<and> (obj_name b1 = None \<and> os_index b1 = - 1 \<and> tn b1 = ''Bus'' \<and>
       obj_name b2 = None \<and> os_index b2 = - 1 \<and> tn b2 = ''Bus'' \<and>
       lastfreeidfortype s ''Bus'' = None
      \<longrightarrow> fst (get_node_name tn b1 s) = ''Bus!0'' \<and>
          fst (get_node_name tn b2 (snd (get_node_name tn b1 s))) = ''Bus!1'')"
proof (intro conjI impI)
  assume "network_sap obj \<and> obj_name obj = Some given"
  then show "get_node_name tn obj s = (given, s)"
    by (simp add: get_node_name_def)
next
  assume a: "(obj_type obj = HWLOC_OBJ_PU \<or> obj_type obj = HWLOC_OBJ_CORE \<or>
        obj_type obj = HWLOC_OBJ_MACHINE) \<and> os_index obj \<noteq> - 1"
  then have "\<not> network_sap obj" by (auto simp: network_sap_def)
  with a show "get_node_name tn obj s = (tn obj @ ''#'' @ to_string (unat (os_index obj)), s)"
    by (simp add: get_node_name_def get_node_type_def)
next
  assume "\<not> (network_sap obj \<and> obj_name obj \<noteq> None) \<and>
       \<not> ((obj_type obj = HWLOC_OBJ_PU \<or> obj_type obj = HWLOC_OBJ_CORE \<or>
            obj_type obj = HWLOC_OBJ_MACHINE) \<and> os_index obj \<noteq> - 1)"
  then show "get_node_name tn obj s =
            (tn obj @ ''!'' @ to_string (unat (fst (get_next_id_for_type (tn obj) s))),
             snd (get_next_id_for_type (tn obj) s))"
    by (auto simp: get_node_name_def get_node_type_def Let_def split: prod.splits)
next
  assume a: "obj_type obj = HWLOC_OBJ_PU \<and> os_index obj = 3 \<and> tn obj = ''PU''"
  then have "\<not> network_sap obj" by (auto simp: network_sap_def)
  with a show "get_node_name tn obj s = (''PU#3'', s)"
    by (simp add: get_node_name_def get_node_type_def to_string_digits)
next
  assume a: "obj_name b1 = None \<and> os_index b1 = - 1 \<and> tn b1 = ''Bus'' \<and>
       obj_name b2 = None \<and> os_index b2 = - 1 \<and> tn b2 = ''Bus'' \<and>
       lastfreeidfortype s ''Bus'' = None"
  then show "fst (get_node_name tn b1 s) = ''Bus!0''"
    by (simp add: get_node_name_def get_node_type_def get_next_id_for_type_def
        to_string_digits)
  from a show "fst (get_node_name tn b2 (snd (get_node_name tn b1 s))) = ''Bus!1''"
    by (simp add: get_node_name_def get_node_type_def get_next_id_for_type_def
        to_string_digits)
qed

theorem node_naming_witness:
  "get_node_name plain_label
     (Obj HWLOC_OBJ_OS_DEVICE (- 1) (Some ''eth0'') [(''Address'', ''00:11:22:33:44:55'')] [])
     new_ID = (''eth0'', new_ID)
   \<and> get_node_name plain_label (Obj HWLOC_OBJ_CORE 2 None [] []) new_ID = (''Core#2'', new_ID)
   \<and> fst (get_node_name plain_label (Obj HWLOC_OBJ_SOCKET 0 None [] []) new_ID) = ''Socket!0''
   \<and> get_node_name plain_label (Obj HWLOC_OBJ_PU 3 None [] []) new_ID = (''PU#3'', new_ID)
   \<and> fst (get_node_name (\<lambda>obj. ''Bus'') (Obj HWLOC_OBJ_BRIDGE (- 1) None [] []) new_ID)
       = ''Bus!0''
   \<and> fst (get_node_name (\<lambda>obj. ''Bus'') (Obj HWLOC_OBJ_BRIDGE (- 1) None [] [])
         (snd (get_node_name (\<lambda>obj. ''Bus'') (Obj HWLOC_OBJ_BRIDGE (- 1) None [] []) new_ID)))
       = ''Bus!1''"
proof -
  let ?eth = "Obj HWLOC_OBJ_OS_DEVICE (- 1) (Some ''eth0'')
    [(''Address'', ''00:11:22:33:44:55'')] []"
  let ?bus = "Obj HWLOC_OBJ_BRIDGE (- 1) None [] []"
  let ?sock = "Obj HWLOC_OBJ_SOCKET 0 None [] []"
  have sap: "network_sap ?eth" by code_simp
  have nsap: "\<not> network_sap ?sock" by (simp add: network_sap_def)
  have fresh: "lastfreeidfortype new_ID ''Bus'' = None" by (simp add: new_ID_def)
  have 1: "get_node_name plain_label ?eth new_ID = (''eth0'', new_ID)"
    using node_naming [where obj = ?eth and given = "''eth0''" and tn = plain_label
        and s = new_ID and ?b1.0 = ?bus and ?b2.0 = ?bus]
    by (simp add: sap)
  have 2: "get_node_name plain_label (Obj HWLOC_OBJ_CORE 2 None [] []) new_ID =
      (''Core#2'', new_ID)"
    using node_naming [where obj = "Obj HWLOC_OBJ_CORE 2 None [] []" and given = "[]"
        and tn = plain_label and s = new_ID and ?b1.0 = ?bus and ?b2.0 = ?bus]
    by (simp add: plain_label_def to_string_digits)
  have 3: "fst (get_node_name plain_label ?sock new_ID) = ''Socket!0''"
    using node_naming [where obj = ?sock and given = "[]"
        and tn = plain_label and s = new_ID and ?b1.0 = ?bus and ?b2.0 = ?bus]
    by (simp add: nsap plain_label_def to_string_digits get_next_id_for_type_def new_ID_def)
  have 4: "get_node_name plain_label (Obj HWLOC_OBJ_PU 3 None [] []) new_ID =
      (''PU#3'', new_ID)"
    using node_naming [where obj = "Obj HWLOC_OBJ_PU 3 None [] []" and given = "[]"
        and tn = plain_label and s = new_ID and ?b1.0 = ?bus and ?b2.0 = ?bus]
    by (simp add: plain_label_def to_string_digits)
  have 5: "fst (get_node_name (\<lambda>obj. ''Bus'') ?bus new_ID) = ''Bus!0'' \<and>
      fst (get_node_name (\<lambda>obj. ''Bus'') ?bus
        (snd (get_node_name (\<lambda>obj. ''Bus'') ?bus new_ID))) = ''Bus!1''"
    using node_naming [where obj = ?bus and given = "[]"
        and tn = "\<lambda>obj. ''Bus''" and s = new_ID and ?b1.0 = ?bus and ?b2.0 = ?bus,
        THEN conjunct2, THEN conjunct2, THEN conjunct2, THEN conjunct2]
    by (simp add: fresh)
  from 1 2 3 4 5 show ?thesis by (simp only: simp_thms)
qed

section \<open>A root over a single PU\<close>

text \<open>
  Claim C1, amended. For a root whose only child is a childless PU with OS index 0 and
  label "PU", the run emits the infrastructure node "PU#0" of type "EE" with exactly one
  port, and, because the child returned a descriptor, also a node for the root itself with
  two ports and exactly one edge, from the root's node to "PU#0".
\<close>

theorem single_pu_scenario:
  assumes "tn (Obj HWLOC_OBJ_PU 0 pnm pinfs []) = ''PU''"
  shows "let pu = Obj HWLOC_OBJ_PU 0 pnm pinfs [];
             root = Obj ty oi nm infs [pu];
             rn = fst (get_node_name tn root new_ID);
             out = add_topology_tree tn root;
             r_pu = hd (node_infras out);
             r_root = last (node_infras out @ node_saps out)
         in length (node_infras out @ node_saps out) = 2
          \<and> member ''name'' r_pu = Some (JString ''PU#0'')
          \<and> member ''type'' r_pu = Some (JString ''EE'')
          \<and> member ''ports'' r_pu = Some (JArray [JObject [(''id'', JUInt 0)]])
          \<and> member ''name'' r_root = Some (JString rn)
          \<and> member ''ports'' r_root =
                Some (JArray [JObject [(''id'', JUInt 2)], JObject [(''id'', JUInt 3)]])
          \<and> node_edges out =
                [JObject [(''id'', JUInt 1), (''src_node'', JString rn), (''src_port'', JUInt 2),
                          (''dst_node'', JString ''PU#0''), (''dst_port'', JUInt 0),
                          (''delay'', JReal (1 / 10)), (''bandwidth'', JInt 1000)]]"
proof -
  let ?pu = "Obj HWLOC_OBJ_PU 0 pnm pinfs []"
  let ?root = "Obj ty oi nm infs [?pu]"
  let ?rn = "fst (get_node_name tn ?root new_ID)"
  let ?st1 = "init_acc\<lparr>node_infras := [emit_node ?pu ''PU#0'' [mk_port 0]],
    id_alloc := new_ID\<lparr>lastfreeid := 1\<rparr>\<rparr>"
  have nsap: "\<not> network_sap ?pu" by (simp add: network_sap_def)
  have name_pu: "get_node_name tn ?pu s = (''PU#0'', s)" for s
    using assms nsap
    by (simp add: get_node_name_def get_node_type_def to_string_digits)
  have step_pu: "add_nodes tn ?pu init_acc = (Some [(0, ''PU#0'')], ?st1)"
    by (simp add: required_by_type_def add_nodes_body_def name_pu nsap init_acc_def new_ID_def
        get_next_global_id_def mk_port_def)
  have kids: "add_children tn [?pu] init_acc = ([[(0, ''PU#0'')]], ?st1)"
    by (simp add: step_pu del: add_nodes.simps)
  have rn: "node_name_of tn ?root ?st1 = ?rn"
    by (simp add: node_name_of_def init_acc_def get_node_name_fst_lastfreeid)
  have run: "add_topology_tree tn ?root = snd (add_nodes_body tn ?root [[(0, ''PU#0'')]] ?st1)"
    by (simp add: add_topology_tree_def add_nodes_unfold [of tn ?root] kids step_pu
        del: add_nodes.simps)
  have rec: "node_record tn ?root [[(0, ''PU#0'')]] ?st1 =
      emit_node ?root ?rn [mk_port 2, mk_port 3]"
    unfolding node_record_def rn by (simp add: new_ports_def)
  have edges: "node_edges (add_topology_tree tn ?root) = [mk_edge 1 ?rn 2 (0, ''PU#0'')]"
    unfolding run body_edges rn by (simp add: new_edges_def init_acc_def)
  have saps: "node_saps (add_topology_tree tn ?root) =
      (if network_sap ?root then [emit_node ?root ?rn [mk_port 2, mk_port 3]] else [])"
    unfolding run body_saps rec by (simp add: init_acc_def)
  have infras: "node_infras (add_topology_tree tn ?root) =
      (if network_sap ?root then [emit_node ?pu ''PU#0'' [mk_port 0]]
       else [emit_node ?pu ''PU#0'' [mk_port 0], emit_node ?root ?rn [mk_port 2, mk_port 3]])"
    unfolding run body_infras rec by (simp add: init_acc_def)
  have pu_members:
    "member ''name'' (emit_node ?pu ''PU#0'' [mk_port 0]) = Some (JString ''PU#0'')"
    "member ''type'' (emit_node ?pu ''PU#0'' [mk_port 0]) = Some (JString ''EE'')"
    "member ''ports'' (emit_node ?pu ''PU#0'' [mk_port 0]) =
       Some (JArray [JObject [(''id'', JUInt 0)]])"
    by (simp_all add: emit_node_def nsap json_of_appended_def mk_port_def)
  have root_members:
    "member ''name'' (emit_node ?root n [mk_port 2, mk_port 3]) = Some (JString n)"
    "member ''ports'' (emit_node ?root n [mk_port 2, mk_port 3]) =
       Some (JArray [JObject [(''id'', JUInt 2)], JObject [(''id'', JUInt 3)]])" for n
    by (simp_all add: emit_node_def json_of_appended_def mk_port_def)
  show ?thesis
    unfolding Let_def edges saps infras
    by (simp add: pu_members root_members mk_edge_def)
qed

theorem single_pu_scenario_witness:
  "let root = Obj HWLOC_OBJ_MACHINE 0 None [] [Obj HWLOC_OBJ_PU 0 None [] []];
       out = add_topology_tree plain_label root
   in length (node_infras out @ node_saps out) = 2
    \<and> member ''name'' (hd (node_infras out)) = Some (JString ''PU#0'')
    \<and> member ''type'' (hd (node_infras out)) = Some (JString ''EE'')
    \<and> length (node_edges out) = 1"
  using single_pu_scenario [of plain_label None "[]" HWLOC_OBJ_MACHINE 0 None "[]"]
  by (simp add: plain_label_def Let_def)

text \<open>
  The claim as written fails: with a machine root over one PU the run emits two
  infrastructure nodes and one edge.
\<close>

theorem single_pu_counterexample:
  "\<not> (length (node_infras (add_topology_tree plain_label
          (Obj HWLOC_OBJ_MACHINE 0 None [] [Obj HWLOC_OBJ_PU 0 None [] []]))) = 1
      \<and> node_edges (add_topology_tree plain_label
          (Obj HWLOC_OBJ_MACHINE 0 None [] [Obj HWLOC_OBJ_PU 0 None [] []])) = [])"
  by code_simp

section \<open>One materialized node\<close>

declare add_nodes.simps [simp del]

lemma add_nodes_materialized:
  assumes "add_children tn (children obj) st = (allports, st1)"
    and "allports \<noteq> [] \<or> required_by_type obj"
  shows "add_nodes tn obj st = add_nodes_body tn obj allports st1"
  using assms by (auto simp: add_nodes_unfold)

text \<open>
  Claim C8. A materialized node that is a network SAP is appended to the SAP collection,
  as a record without \<^verbatim>\<open>domain\<close>, \<^verbatim>\<open>type\<close>, \<^verbatim>\<open>resources\<close> (or \<^verbatim>\<open>supported\<close>)
  member; every other materialized node is appended to the infrastructure collection with
  domain "INTERNAL": a PU with type "EE", the capability list and the resources
  cpu 1, mem 32000, storage 150, delay 0.5, bandwidth 1000; any other node with type
  "SDN-SWITCH" and the resources cpu 0, mem 0, storage 0, delay 0.5, bandwidth 1000.
  (\<open>allports\<close> and \<open>st1\<close> are what the loop over the children returned.)
\<close>

theorem emitted_node_shape:
  assumes "add_children tn (children obj) st = (allports, st1)"
    and "allports \<noteq> [] \<or> required_by_type obj"
  shows "let st' = snd (add_nodes tn obj st) in
     if network_sap obj then
       (\<exists>r. node_saps st' = node_saps st1 @ [r] \<and> node_infras st' = node_infras st1
          \<and> member ''domain'' r = None \<and> member ''type'' r = None
          \<and> member ''resources'' r = None \<and> member ''supported'' r = None)
     else
       (\<exists>r. node_infras st' = node_infras st1 @ [r] \<and> node_saps st' = node_saps st1
          \<and> member ''domain'' r = Some (JString ''INTERNAL'')
          \<and> (if obj_type obj = HWLOC_OBJ_PU then
                member ''type'' r = Some (JString ''EE'')
              \<and> member ''supported'' r = Some (JArray [JString ''headerDecompressor''])
              \<and> member ''resources'' r = Some (JObject
                   [(''cpu'', JInt 1), (''mem'', JInt 32000), (''storage'', JInt 150),
                    (''delay'', JReal (1 / 2)), (''bandwidth'', JInt 1000)])
              else
                member ''type'' r = Some (JString ''SDN-SWITCH'')
              \<and> member ''resources'' r = Some (JObject
                   [(''cpu'', JInt 0), (''mem'', JInt 0), (''storage'', JInt 0),
                    (''delay'', JReal (1 / 2)), (''bandwidth'', JInt 1000)])))"
proof -
  have run: "add_nodes tn obj st = add_nodes_body tn obj allports st1"
    using assms by (rule add_nodes_materialized)
  show ?thesis
  proof (cases "network_sap obj")
    case True
    then show ?thesis
      unfolding Let_def run body_saps body_infras node_record_def
      by (simp add: emit_node_def)
  next
    case False
    then show ?thesis
      unfolding Let_def run body_saps body_infras node_record_def
      by (simp add: emit_node_def)
  qed
qed

theorem emitted_node_shape_witness:
  "(\<exists>r. node_infras (snd (add_nodes plain_label (Obj HWLOC_OBJ_PU 0 None [] []) init_acc)) = [r]
      \<and> member ''type'' r = Some (JString ''EE''))
   \<and> (\<exists>r. node_saps (snd (add_nodes plain_label
            (Obj HWLOC_OBJ_OS_DEVICE (- 1) (Some ''eth0'') [(''address'', ''00:11:22:33:44:55'')] [])
            init_acc)) = [r]
      \<and> member ''type'' r = None)"
proof -
  let ?pu = "Obj HWLOC_OBJ_PU 0 None [] []"
  let ?eth = "Obj HWLOC_OBJ_OS_DEVICE (- 1) (Some ''eth0'')
    [(''address'', ''00:11:22:33:44:55'')] []"
  have k1: "add_children plain_label (children ?pu) init_acc = ([], init_acc)" by simp
  have k2: "add_children plain_label (children ?eth) init_acc = ([], init_acc)" by simp
  have sap: "network_sap ?eth" by code_simp
  have nsap: "\<not> network_sap ?pu" by code_simp
  have m1: "[] \<noteq> [] \<or> required_by_type ?pu" by (simp add: required_by_type_def)
  have m2: "[] \<noteq> [] \<or> required_by_type ?eth"
    using sap by (simp add: required_by_type_def)
  have 1: "\<exists>r. node_infras (snd (add_nodes plain_label ?pu init_acc)) = [r]
      \<and> member ''type'' r = Some (JString ''EE'')"
    using emitted_node_shape [OF k1 m1] nsap by (auto simp: Let_def init_acc_def)
  have 2: "\<exists>r. node_saps (snd (add_nodes plain_label ?eth init_acc)) = [r]
      \<and> member ''type'' r = None"
    using emitted_node_shape [OF k2 m2] sap by (auto simp: Let_def init_acc_def)
  from 1 2 show ?thesis by blast
qed

text \<open>
  Claim C5. A materialized node gets, for the \<open>k\<close>-th descriptor collected from its
  children, exactly one edge, appended in that order: edge id and source port id are the
  next two values of the global counter, the source node is the node's name, destination
  node and port come from the descriptor, delay is 0.1 and bandwidth 1000. The node's port
  list is the source ports in order followed by one more newly allocated port; that last
  port with the node's name is the single descriptor returned, so the list has one entry
  more than there are descriptors, and 2n + 1 ids are drawn in all.
\<close>

theorem edge_synthesis:
  assumes "add_children tn (children obj) st = (allports, st1)"
    and "allports \<noteq> [] \<or> required_by_type obj"
  shows "let c = lastfreeid (id_alloc st1);
             node_name = fst (get_node_name tn obj (id_alloc st1));
             pits = concat allports;
             n = length pits;
             st' = snd (add_nodes tn obj st);
             emitted = last (if network_sap obj then node_saps st' else node_infras st')
         in node_edges st' = node_edges st1 @
              map (\<lambda>k. JObject
                     [(''id'', JUInt (c + 2 * of_nat k)),
                      (''src_node'', JString node_name),
                      (''src_port'', JUInt (c + 2 * of_nat k + 1)),
                      (''dst_node'', JString (snd (pits ! k))),
                      (''dst_port'', JUInt (fst (pits ! k))),
                      (''delay'', JReal (1 / 10)),
                      (''bandwidth'', JInt 1000)]) [0..<n]
          \<and> member ''ports'' emitted = Some (JArray
              (map (\<lambda>k. JObject [(''id'', JUInt (c + 2 * of_nat k + 1))]) [0..<n] @
               [JObject [(''id'', JUInt (c + 2 * of_nat n))]]))
          \<and> fst (add_nodes tn obj st) = Some [(c + 2 * of_nat n, node_name)]
          \<and> lastfreeid (id_alloc st') = c + 2 * of_nat n + 1"
proof -
  have run: "add_nodes tn obj st = add_nodes_body tn obj allports st1"
    using assms by (rule add_nodes_materialized)
  have ports: "member ''ports'' (emit_node obj nm (ps @ [p])) = Some (JArray (ps @ [p]))"
    for nm ps p
    by (simp add: emit_node_def json_of_appended_def)
  show ?thesis
    unfolding Let_def run body_edges body_fst body_lastfreeid body_saps body_infras
    by (simp add: node_record_def ports new_edges_def new_ports_def mk_edge_def mk_port_def
        node_name_of_def Let_def)
qed

theorem edge_synthesis_witness:
  "fst (add_nodes plain_label
         (Obj HWLOC_OBJ_MACHINE 0 None []
            [Obj HWLOC_OBJ_PU 0 None [] [], Obj HWLOC_OBJ_PU 1 None [] []]) init_acc)
     = Some [(6, ''Machine#0'')]
   \<and> lastfreeid (id_alloc (snd (add_nodes plain_label
         (Obj HWLOC_OBJ_MACHINE 0 None []
            [Obj HWLOC_OBJ_PU 0 None [] [], Obj HWLOC_OBJ_PU 1 None [] []]) init_acc))) = 7"
proof -
  let ?root = "Obj HWLOC_OBJ_MACHINE 0 None []
            [Obj HWLOC_OBJ_PU 0 None [] [], Obj HWLOC_OBJ_PU 1 None [] []]"
  define K where "K = add_children plain_label (children ?root) init_acc"
  have kids: "add_children plain_label (children ?root) init_acc = (fst K, snd K)"
    by (simp add: K_def)
  have mat: "fst K \<noteq> [] \<or> required_by_type ?root" unfolding K_def by code_simp
  have c: "lastfreeid (id_alloc (snd K)) = 2" unfolding K_def by code_simp
  have n: "concat (fst K) = [(0, ''PU#0''), (1, ''PU#1'')]" unfolding K_def by code_simp
  have nm: "fst (get_node_name plain_label ?root (id_alloc (snd K))) = ''Machine#0''"
    unfolding K_def by code_simp
  from edge_synthesis [OF kids mat] show ?thesis
    by (simp add: Let_def c n nm)
qed

section \<open>Reading the output collections\<close>

lemma uint_member_mk_port [simp]: "uint_member ''id'' (mk_port p) = [p]"
  by (simp add: uint_member_def mk_port_def)

lemma uint_member_mk_edge [simp]: "uint_member ''id'' (mk_edge e nm p pit) = [e]"
  by (simp add: uint_member_def mk_edge_def)

lemma str_member_mk_edge [simp]:
  "str_member ''src_node'' (mk_edge e nm p pit) = [nm]"
  "str_member ''dst_node'' (mk_edge e nm p pit) = [snd pit]"
  by (simp_all add: str_member_def mk_edge_def)

lemma emit_node_name [simp]:
  "member ''name'' (emit_node obj nm ports) = Some (JString nm)"
  "member ''id'' (emit_node obj nm ports) = Some (JString nm)"
  by (simp_all add: emit_node_def)

lemma str_member_emit_node [simp]: "str_member ''name'' (emit_node obj nm ports) = [nm]"
  by (simp add: str_member_def)

lemma node_port_ids_emit_node [simp]:
  "node_port_ids (emit_node obj nm (ps @ [p])) = concat (map (uint_member ''id'') (ps @ [p]))"
  by (simp add: node_port_ids_def emit_node_def json_of_appended_def)

lemma port_ids_new_ports [simp]:
  "concat (map (uint_member ''id'') (new_ports c n)) = map (\<lambda>k. c + 2 * of_nat k + 1) [0..<n]"
  by (induction n) (simp_all add: new_ports_def)

lemma edge_ids_new_edges [simp]:
  "concat (map (uint_member ''id'') (new_edges c nm pits)) =
     map (\<lambda>k. c + 2 * of_nat k) [0..<length pits]"
  unfolding new_edges_def by (induction "length pits") (simp_all add: concat_map_singleton o_def)

section \<open>Port ids and edge ids\<close>

lemma fresh_range_0 [simp]: "fresh_range c 0 = []"
  by (simp add: fresh_range_def)

lemma fresh_range_add:
  "fresh_range c (a + b) = fresh_range c a @ fresh_range (c + of_nat a) b"
proof -
  have "[0..<a + b] = [0..<a] @ [a..<a + b]"
    by (rule upt_add_eq_append) simp
  also have "[a..<a + b] = map (\<lambda>k. k + a) [0..<b]"
    by (simp only: map_add_upt add.commute [of a b])
  finally have split: "[0..<a + b] = [0..<a] @ map (\<lambda>k. k + a) [0..<b]" .
  have "map (\<lambda>k. c + of_nat k) (map (\<lambda>k. k + a) [0..<b]) =
      map (\<lambda>k. c + of_nat a + of_nat k) [0..<b]"
    by (simp add: o_def algebra_simps)
  then show ?thesis
    unfolding fresh_range_def split map_append by (simp only:)
qed

lemma ids_drawn_pruned:
  "\<not> required_below obj \<Longrightarrow> ids_drawn obj = 0"
  "\<not> required_among cs \<Longrightarrow> ids_drawn_list cs = 0"
  by (induction obj and cs rule: ids_drawn_ids_drawn_list.induct) auto

lemma interleave_ids:
  "mset (map (\<lambda>k. c + 2 * of_nat k + 1) [0..<n]) + {#c + 2 * of_nat n#} +
     mset (map (\<lambda>k. c + 2 * of_nat k) [0..<n]) = mset (fresh_range c (2 * n + 1))"
proof (induction n)
  case 0
  show ?case by (simp add: fresh_range_def)
next
  case (Suc n)
  have "fresh_range c (2 * Suc n + 1) =
      fresh_range c (2 * n + 1) @ [c + 2 * of_nat n + 1, c + 2 * of_nat n + 2]"
    by (simp add: fresh_range_def algebra_simps)
  with Suc show ?case by (simp add: algebra_simps)
qed

lemma stubs_length:
  "length (concat (fst (add_children tn cs st))) = length (filter required_below cs)"
proof (induction cs arbitrary: st)
  case Nil
  show ?case by simp
next
  case (Cons c cs)
  obtain r st1 where a: "add_nodes tn c st = (r, st1)" by (cases "add_nodes tn c st")
  obtain rest st2 where b: "add_children tn cs st1 = (rest, st2)"
    by (cases "add_children tn cs st1")
  have ih: "length (concat rest) = length (filter required_below cs)"
    using Cons [of st1] by (simp add: b)
  show ?case
  proof (cases "required_below c")
    case True
    then obtain p nm where "r = Some [(p, nm)]"
      using add_nodes_kept [of c tn st] by (auto simp: a)
    with True ih show ?thesis by (simp add: a b)
  next
    case False
    then have "r = None" using add_nodes_pruned [of c tn st] by (simp add: a)
    with False ih show ?thesis by (simp add: a b)
  qed
qed

lemma body_all_ids:
  "mset (all_ids (snd (add_nodes_body tn obj allports st))) =
     mset (all_ids st) +
     mset (fresh_range (lastfreeid (id_alloc st)) (2 * length (concat allports) + 1))"
proof -
  let ?c = "lastfreeid (id_alloc st)"
  let ?n = "length (concat allports)"
  let ?st' = "snd (add_nodes_body tn obj allports st)"
  have rec: "node_port_ids (node_record tn obj allports st) =
      map (\<lambda>k. ?c + 2 * of_nat k + 1) [0..<?n] @ [?c + 2 * of_nat ?n]"
    by (simp add: node_record_def Let_def)
  have p: "mset (port_ids ?st') = mset (port_ids st) +
      (mset (map (\<lambda>k. ?c + 2 * of_nat k + 1) [0..<?n]) + {#?c + 2 * of_nat ?n#})"
    by (simp add: port_ids_def body_saps body_infras rec)
  have e: "edge_ids ?st' = edge_ids st @ map (\<lambda>k. ?c + 2 * of_nat k) [0..<?n]"
    by (simp add: edge_ids_def body_edges)
  show ?thesis
    unfolding all_ids_def using interleave_ids [of ?c ?n]
    by (simp add: p e ac_simps)
qed

lemma ids_of_run:
  "mset (all_ids (snd (add_nodes tn obj st))) =
     mset (all_ids st) + mset (fresh_range (lastfreeid (id_alloc st)) (ids_drawn obj))
   \<and> lastfreeid (id_alloc (snd (add_nodes tn obj st))) =
     lastfreeid (id_alloc st) + of_nat (ids_drawn obj)"
  and ids_of_children:
  "mset (all_ids (snd (add_children tn cs st))) =
     mset (all_ids st) + mset (fresh_range (lastfreeid (id_alloc st)) (ids_drawn_list cs))
   \<and> lastfreeid (id_alloc (snd (add_children tn cs st))) =
     lastfreeid (id_alloc st) + of_nat (ids_drawn_list cs)"
proof (induction tn obj st and tn cs st rule: add_nodes_add_children.induct)
  case (1 tn ty oi nm infs cs st)
  let ?obj = "Obj ty oi nm infs cs"
  obtain allports st1 where k: "add_children tn cs st = (allports, st1)"
    by (cases "add_children tn cs st")
  have n: "length (concat allports) = length (filter required_below cs)"
    using stubs_length [of tn cs st] by (simp add: k)
  from 1 k have ih: "mset (all_ids st1) =
      mset (all_ids st) + mset (fresh_range (lastfreeid (id_alloc st)) (ids_drawn_list cs))"
    "lastfreeid (id_alloc st1) = lastfreeid (id_alloc st) + of_nat (ids_drawn_list cs)"
    by simp_all
  show ?case
  proof (cases "required_below ?obj")
    case True
    then have "allports \<noteq> [] \<or> required_by_type ?obj"
      using add_children_kept [of cs tn st] k by auto
    then have run: "add_nodes tn ?obj st = add_nodes_body tn ?obj allports st1"
      using k by (simp add: add_nodes_unfold)
    have d: "ids_drawn ?obj = ids_drawn_list cs + (2 * length (concat allports) + 1)"
      using True by (simp add: n del: required_below.simps)
    show ?thesis
      unfolding run d fresh_range_add body_all_ids body_lastfreeid
      by (simp add: ih)
  next
    case False
    then have "ids_drawn ?obj = 0" by (rule ids_drawn_pruned)
    with False show ?thesis
      by (simp add: add_nodes_pruned del: required_below.simps ids_drawn.simps)
  qed
next
  case (2 tn st)
  show ?case by simp
next
  case (3 tn c cs st)
  obtain r st1 where a: "add_nodes tn c st = (r, st1)" by (cases "add_nodes tn c st")
  obtain rest st2 where b: "add_children tn cs st1 = (rest, st2)"
    by (cases "add_children tn cs st1")
  have s: "snd (add_children tn (c # cs) st) = st2"
    by (simp add: a b split: option.splits)
  from 3(1) a have ih1: "mset (all_ids st1) =
      mset (all_ids st) + mset (fresh_range (lastfreeid (id_alloc st)) (ids_drawn c))"
    "lastfreeid (id_alloc st1) = lastfreeid (id_alloc st) + of_nat (ids_drawn c)"
    by simp_all
  from 3(2) [OF a [symmetric]] b have ih2: "mset (all_ids st2) =
      mset (all_ids st1) + mset (fresh_range (lastfreeid (id_alloc st1)) (ids_drawn_list cs))"
    "lastfreeid (id_alloc st2) = lastfreeid (id_alloc st1) + of_nat (ids_drawn_list cs)"
    by simp_all
  show ?case
    unfolding s by (simp add: ih1 ih2 fresh_range_add)
qed

lemma distinct_fresh_range: "distinct (fresh_range 0 n) \<longleftrightarrow> n \<le> 2 ^ 32"
proof
  assume d: "distinct (fresh_range 0 n)"
  show "n \<le> 2 ^ 32"
  proof (rule ccontr)
    assume "\<not> n \<le> 2 ^ 32"
    then have lt: "2 ^ 32 < n" by simp
    have inj: "inj_on (\<lambda>k. (of_nat k :: 32 word)) (set [0..<n])"
      using d by (simp add: fresh_range_def distinct_map)
    have wrap: "(of_nat 0 :: 32 word) = of_nat (2 ^ 32)" by simp
    have "(0::nat) = 2 ^ 32"
      using inj wrap by (rule inj_onD) (use lt in simp_all)
    then show False by simp
  qed
next
  assume le: "n \<le> 2 ^ 32"
  have "inj_on (\<lambda>k. (of_nat k :: 32 word)) (set [0..<n])"
  proof (rule inj_onI)
    fix x y assume "x \<in> set [0..<n]" "y \<in> set [0..<n]"
      and eq: "(of_nat x :: 32 word) = of_nat y"
    then have "x < 2 ^ 32" "y < 2 ^ 32" using le by simp_all
    then have "unat (of_nat x :: 32 word) = x" "unat (of_nat y :: 32 word) = y"
      by (simp_all add: unat_of_nat)
    with eq show "x = y" by metis
  qed
  then show "distinct (fresh_range 0 n)"
    by (simp add: fresh_range_def distinct_map)
qed

lemma ids_distinct_iff:
  "distinct (all_ids (add_topology_tree tn root_obj)) \<longleftrightarrow> ids_drawn root_obj \<le> 2 ^ 32"
proof -
  have "mset (all_ids (add_topology_tree tn root_obj)) = mset (fresh_range 0 (ids_drawn root_obj))"
    using ids_of_run [of tn root_obj init_acc]
    by (simp add: add_topology_tree_def)
       (simp add: init_acc_def new_ID_def all_ids_def port_ids_def edge_ids_def)
  then have "distinct (all_ids (add_topology_tree tn root_obj)) =
      distinct (fresh_range 0 (ids_drawn root_obj))"
    by (rule mset_eq_imp_distinct_iff)
  then show ?thesis by (simp add: distinct_fresh_range)
qed

lemma ids_drawn_wide: "0 < n \<Longrightarrow> ids_drawn (wide_machine n) = 3 * n + 1"
proof -
  assume n: "0 < n"
  let ?pu = "Obj HWLOC_OBJ_PU 0 None [] []"
  have pu: "required_below ?pu" "ids_drawn ?pu = 1" by (simp_all add: required_by_type_def)
  have l: "ids_drawn_list (replicate k ?pu) = k" for k
    by (induction k) (simp_all add: pu del: ids_drawn.simps)
  have a: "required_among (replicate k ?pu) \<longleftrightarrow> 0 < k" for k
    by (induction k) (simp_all add: pu del: required_below.simps)
  have f: "filter required_below (replicate k ?pu) = replicate k ?pu" for k
    by (induction k) (simp_all add: pu del: required_below.simps)
  show ?thesis
    unfolding wide_machine_def using n
    by (simp add: l a f del: replicate.simps)
qed

text \<open>
  Claim C3, amended. The port ids listed by the node records and the edge ids of a run are
  exactly the values that the global counter returned, as many as \<open>ids_drawn\<close> says;
  they are pairwise distinct (port ids among themselves, edge ids among themselves, and
  port ids against edge ids) whenever the run draws at most \<open>2 ^ 32\<close> ids. The counter
  is an \<^verbatim>\<open>unsigned int\<close>, so beyond that it wraps around and returns old values again.
\<close>

theorem ids_unique:
  "length (port_ids (add_topology_tree tn root_obj) @ edge_ids (add_topology_tree tn root_obj))
     = ids_drawn root_obj
   \<and> (ids_drawn root_obj \<le> 2 ^ 32 \<longrightarrow>
       distinct (port_ids (add_topology_tree tn root_obj) @
                 edge_ids (add_topology_tree tn root_obj)))"
proof -
  have "mset (all_ids (add_topology_tree tn root_obj)) = mset (fresh_range 0 (ids_drawn root_obj))"
    using ids_of_run [of tn root_obj init_acc]
    by (simp add: add_topology_tree_def)
       (simp add: init_acc_def new_ID_def all_ids_def port_ids_def edge_ids_def)
  then have "size (mset (all_ids (add_topology_tree tn root_obj))) =
      size (mset (fresh_range 0 (ids_drawn root_obj)))" by simp
  then have "length (all_ids (add_topology_tree tn root_obj)) = ids_drawn root_obj"
    by (simp add: fresh_range_def)
  then show ?thesis
    using ids_distinct_iff [of tn root_obj] by (simp add: all_ids_def)
qed

theorem ids_unique_witness:
  "distinct (port_ids (add_topology_tree plain_label small_machine) @
             edge_ids (add_topology_tree plain_label small_machine))"
proof -
  have "ids_drawn small_machine = 10" unfolding small_machine_def by code_simp
  then have "ids_drawn small_machine \<le> 2 ^ 32" by simp
  with ids_unique [of plain_label small_machine] show ?thesis by blast
qed

text \<open>
  The claim as written, for every tree, fails: a machine with \<open>2 ^ 31\<close> PUs below it
  draws \<open>3 * 2 ^ 31 + 1\<close> ids, more than there are 32-bit values.
\<close>

theorem ids_unique_counterexample:
  "\<not> distinct (port_ids (add_topology_tree plain_label (wide_machine (2 ^ 31))) @
               edge_ids (add_topology_tree plain_label (wide_machine (2 ^ 31))))"
proof -
  have "ids_drawn (wide_machine (2 ^ 31)) = 3 * 2 ^ 31 + 1"
    by (rule ids_drawn_wide) simp
  then have "\<not> ids_drawn (wide_machine (2 ^ 31)) \<le> 2 ^ 32" by simp
  then show ?thesis
    using ids_distinct_iff [of plain_label "wide_machine (2 ^ 31)"] by (simp add: all_ids_def)
qed

section \<open>Ids, names and edge endpoints\<close>

lemma new_edges_shape:
  "e \<in> set (new_edges c nm pits) \<Longrightarrow> \<exists>i p pit. pit \<in> set pits \<and> e = mk_edge i nm p pit"
proof -
  assume "e \<in> set (new_edges c nm pits)"
  then obtain k where k: "k < length pits"
    and e: "e = mk_edge (c + 2 * of_nat k) nm (c + 2 * of_nat k + 1) (pits ! k)"
    unfolding new_edges_def by auto
  from k have "pits ! k \<in> set pits" by (rule nth_mem)
  with e show ?thesis by blast
qed

lemma mk_edge_members [simp]:
  "member ''src_node'' (mk_edge i nm p pit) = Some (JString nm)"
  "member ''dst_node'' (mk_edge i nm p pit) = Some (JString (snd pit))"
  by (simp_all add: mk_edge_def)

lemma body_nodes:
  "set (node_saps (snd (add_nodes_body tn obj allports st)) @
        node_infras (snd (add_nodes_body tn obj allports st))) =
     insert (node_record tn obj allports st) (set (node_saps st @ node_infras st))"
  by (auto simp: body_saps body_infras)

lemma node_record_members [simp]:
  "member ''id'' (node_record tn obj allports st) = Some (JString (node_name_of tn obj st))"
  "member ''name'' (node_record tn obj allports st) = Some (JString (node_name_of tn obj st))"
  by (simp_all add: node_record_def Let_def)

lemma body_named:
  "named (snd (add_nodes_body tn obj allports st)) = insert (node_name_of tn obj st) (named st)"
  unfolding named_def body_nodes by auto

lemma body_well_named:
  assumes "well_named st" and "stub_names allports \<subseteq> named st"
  shows "well_named (snd (add_nodes_body tn obj allports st))"
proof -
  let ?st' = "snd (add_nodes_body tn obj allports st)"
  let ?nm = "node_name_of tn obj st"
  have nodes: "\<exists>nm. member ''id'' r = Some (JString nm) \<and> member ''name'' r = Some (JString nm)"
    if "r \<in> set (node_saps ?st' @ node_infras ?st')" for r
    using that assms(1) unfolding body_nodes well_named_def by auto
  have edges: "\<exists>a b. member ''src_node'' e = Some (JString a) \<and>
      member ''dst_node'' e = Some (JString b) \<and> a \<in> named ?st' \<and> b \<in> named ?st'"
    if "e \<in> set (node_edges ?st')" for e
  proof -
    from that consider "e \<in> set (node_edges st)"
      | "e \<in> set (new_edges (lastfreeid (id_alloc st)) ?nm (concat allports))"
      by (auto simp: body_edges)
    then show ?thesis
    proof cases
      case 1
      with assms(1) show ?thesis unfolding well_named_def body_named by blast
    next
      case 2
      then obtain i p pit where "pit \<in> set (concat allports)" "e = mk_edge i ?nm p pit"
        using new_edges_shape by blast
      moreover from this assms(2) have "snd pit \<in> named st"
        unfolding stub_names_def by blast
      ultimately show ?thesis unfolding body_named by simp
    qed
  qed
  from nodes edges show ?thesis unfolding well_named_def by blast
qed

lemma stub_names_simps [simp]:
  "stub_names [] = {}"
  "stub_names (p # ps) = snd ` set p \<union> stub_names ps"
  by (auto simp: stub_names_def)

lemma well_named_run:
  "well_named st \<Longrightarrow>
     well_named (snd (add_nodes tn obj st)) \<and> named st \<subseteq> named (snd (add_nodes tn obj st)) \<and>
     stub_names (case fst (add_nodes tn obj st) of None \<Rightarrow> [] | Some p \<Rightarrow> [p])
       \<subseteq> named (snd (add_nodes tn obj st))"
  and well_named_children:
  "well_named st \<Longrightarrow>
     well_named (snd (add_children tn cs st)) \<and> named st \<subseteq> named (snd (add_children tn cs st)) \<and>
     stub_names (fst (add_children tn cs st)) \<subseteq> named (snd (add_children tn cs st))"
proof (induction tn obj st and tn cs st rule: add_nodes_add_children.induct)
  case (1 tn ty oi nm infs cs st)
  let ?obj = "Obj ty oi nm infs cs"
  obtain allports st1 where k: "add_children tn cs st = (allports, st1)"
    by (cases "add_children tn cs st")
  from 1 k have ih: "well_named st1" "named st \<subseteq> named st1" "stub_names allports \<subseteq> named st1"
    by simp_all
  show ?case
  proof (cases "allports \<noteq> [] \<or> required_by_type ?obj")
    case True
    then have run: "add_nodes tn ?obj st = add_nodes_body tn ?obj allports st1"
      using k by (simp add: add_nodes_unfold)
    show ?thesis
      unfolding run using ih body_well_named [OF ih(1) ih(3)]
      by (auto simp: body_named body_fst)
  next
    case False
    then have "add_nodes tn ?obj st = (None, st1)"
      using k by (simp add: add_nodes_unfold)
    with ih show ?thesis by simp
  qed
next
  case (2 tn st)
  then show ?case by simp
next
  case (3 tn c cs st)
  obtain r st1 where a: "add_nodes tn c st = (r, st1)" by (cases "add_nodes tn c st")
  obtain rest st2 where b: "add_children tn cs st1 = (rest, st2)"
    by (cases "add_children tn cs st1")
  from 3(1) [OF 3(3)] a have ih1: "well_named st1" "named st \<subseteq> named st1"
    "stub_names (case r of None \<Rightarrow> [] | Some p \<Rightarrow> [p]) \<subseteq> named st1"
    by simp_all
  from 3(2) [OF refl a [symmetric] ih1(1)] b have ih2: "well_named st2" "named st1 \<subseteq> named st2"
    "stub_names rest \<subseteq> named st2"
    by simp_all
  show ?case
    using ih1 ih2 by (cases r) (auto simp: a b)
qed

lemma named_subset_node_names: "named st \<subseteq> set (node_names st)"
  by (auto simp: named_def node_names_def str_member_def)

lemma small_run_nonempty:
  "node_saps (add_topology_tree plain_label small_machine) \<noteq> [] \<and>
   node_infras (add_topology_tree plain_label small_machine) \<noteq> [] \<and>
   node_edges (add_topology_tree plain_label small_machine) \<noteq> []"
  unfolding small_machine_def by code_simp

lemma small_run_names:
  "node_names (add_topology_tree plain_label small_machine) =
     [''eth0'', ''PU#0'', ''Socket!0'', ''Machine#0'']"
  unfolding small_machine_def by code_simp

text \<open>
  Claim C10. In the output of a run every SAP record and every infrastructure record has
  a string as its id and the same string as its name; and both ends of every edge, which
  are given by node name, are the id and the name of an emitted node record.
\<close>

theorem id_equals_name:
  "(\<forall>r \<in> set (node_saps (add_topology_tree tn root_obj) @
               node_infras (add_topology_tree tn root_obj)).
      \<exists>nm. member ''id'' r = Some (JString nm) \<and> member ''name'' r = Some (JString nm))
   \<and> (\<forall>e \<in> set (node_edges (add_topology_tree tn root_obj)).
      \<exists>a b. member ''src_node'' e = Some (JString a) \<and> member ''dst_node'' e = Some (JString b)
        \<and> (\<exists>r \<in> set (node_saps (add_topology_tree tn root_obj) @
                      node_infras (add_topology_tree tn root_obj)).
              member ''id'' r = Some (JString a) \<and> member ''name'' r = Some (JString a))
        \<and> (\<exists>r \<in> set (node_saps (add_topology_tree tn root_obj) @
                      node_infras (add_topology_tree tn root_obj)).
              member ''id'' r = Some (JString b) \<and> member ''name'' r = Some (JString b)))"
proof -
  have "well_named init_acc" by (simp add: well_named_def init_acc_def)
  then have "well_named (add_topology_tree tn root_obj)"
    unfolding add_topology_tree_def using well_named_run by blast
  then show ?thesis unfolding well_named_def named_def by simp
qed

theorem id_equals_name_witness:
  "member ''id'' (hd (node_saps (add_topology_tree plain_label small_machine))) =
     member ''name'' (hd (node_saps (add_topology_tree plain_label small_machine)))
   \<and> (\<exists>a. member ''src_node'' (hd (node_edges (add_topology_tree plain_label small_machine)))
       = Some (JString a))"
proof -
  let ?out = "add_topology_tree plain_label small_machine"
  have r: "hd (node_saps ?out) \<in> set (node_saps ?out @ node_infras ?out)"
    and e: "hd (node_edges ?out) \<in> set (node_edges ?out)"
    using small_run_nonempty by simp_all
  from id_equals_name [of plain_label small_machine] r e show ?thesis by fastforce
qed

section \<open>Pruned nodes\<close>

text \<open>
  Claim C2. A node that is not required and has no required node below it contributes
  nothing: its call returns \<^verbatim>\<open>NULL\<close> and leaves the three collections and the
  allocator exactly as they were, so no record comes from it and its parent gets no
  descriptor to link to; and in the output of a run both ends of every edge are names of
  emitted node records, so no edge refers to a node that was pruned. In particular a
  machine root with no children and no info entries yields three empty collections.
\<close>

theorem pruned_contributes_nothing:
  "(\<not> required_by_type obj \<and> (\<forall>d \<in> set (descendants obj). \<not> required_by_type d)
      \<longrightarrow> add_nodes tn obj st = (None, st))
   \<and> (\<forall>e \<in> set (node_edges (add_topology_tree tn root_obj)).
        \<exists>a b. member ''src_node'' e = Some (JString a) \<and> member ''dst_node'' e = Some (JString b)
          \<and> a \<in> set (node_names (add_topology_tree tn root_obj))
          \<and> b \<in> set (node_names (add_topology_tree tn root_obj)))
   \<and> node_saps (add_topology_tree tn (Obj HWLOC_OBJ_MACHINE oi nm [] [])) = []
   \<and> node_infras (add_topology_tree tn (Obj HWLOC_OBJ_MACHINE oi nm [] [])) = []
   \<and> node_edges (add_topology_tree tn (Obj HWLOC_OBJ_MACHINE oi nm [] [])) = []"
proof -
  have pruned: "add_nodes tn obj st = (None, st)"
    if "\<not> required_by_type obj" "\<forall>d \<in> set (descendants obj). \<not> required_by_type d"
    using that add_nodes_pruned [of obj tn st] required_below_descendants(1) [of obj] by blast
  have "well_named init_acc" by (simp add: well_named_def init_acc_def)
  then have "well_named (add_topology_tree tn root_obj)"
    unfolding add_topology_tree_def using well_named_run by blast
  then have ends: "\<forall>e \<in> set (node_edges (add_topology_tree tn root_obj)).
        \<exists>a b. member ''src_node'' e = Some (JString a) \<and> member ''dst_node'' e = Some (JString b)
          \<and> a \<in> set (node_names (add_topology_tree tn root_obj))
          \<and> b \<in> set (node_names (add_topology_tree tn root_obj))"
    unfolding well_named_def using named_subset_node_names by blast
  have "add_nodes tn (Obj HWLOC_OBJ_MACHINE oi nm [] []) init_acc = (None, init_acc)"
    by (rule add_nodes_pruned) (simp add: required_by_type_def)
  then have empty: "add_topology_tree tn (Obj HWLOC_OBJ_MACHINE oi nm [] []) = init_acc"
    by (simp add: add_topology_tree_def)
  from pruned ends show ?thesis
    unfolding empty by (simp add: init_acc_def)
qed

theorem pruned_contributes_nothing_witness:
  "add_nodes plain_label
     (Obj HWLOC_OBJ_MACHINE 0 None []
        [Obj HWLOC_OBJ_SOCKET 0 None [] [Obj HWLOC_OBJ_CORE 0 None [] []],
         Obj HWLOC_OBJ_OS_DEVICE (- 1) (Some ''sda'') [(''Type'', ''Disk'')] []])
     init_acc = (None, init_acc)
   \<and> (\<exists>a. member ''dst_node'' (hd (node_edges (add_topology_tree plain_label small_machine)))
         = Some (JString a) \<and> a \<in> {''eth0'', ''PU#0'', ''Socket!0'', ''Machine#0''})"
proof -
  let ?t = "Obj HWLOC_OBJ_MACHINE 0 None []
        [Obj HWLOC_OBJ_SOCKET 0 None [] [Obj HWLOC_OBJ_CORE 0 None [] []],
         Obj HWLOC_OBJ_OS_DEVICE (- 1) (Some ''sda'') [(''Type'', ''Disk'')] []]"
  let ?out = "add_topology_tree plain_label small_machine"
  note inst = pruned_contributes_nothing [of ?t plain_label init_acc small_machine]
  have none: "\<not> required_by_type ?t \<and> (\<forall>d \<in> set (descendants ?t). \<not> required_by_type d)"
    by (simp add: required_by_type_def network_sap_def)
  have 1: "add_nodes plain_label ?t init_acc = (None, init_acc)"
    using inst none by blast
  have e: "hd (node_edges ?out) \<in> set (node_edges ?out)"
    using small_run_nonempty by simp
  have 2: "\<exists>a. member ''dst_node'' (hd (node_edges ?out)) = Some (JString a)
      \<and> a \<in> {''eth0'', ''PU#0'', ''Socket!0'', ''Machine#0''}"
    using inst e unfolding small_run_names by fastforce
  from 1 2 show ?thesis by blast
qed

section \<open>Connectivity\<close>

lemma links_new_edges:
  "concat (map (\<lambda>e. List.product (str_member ''src_node'' e) (str_member ''dst_node'' e))
     (new_edges c nm pits)) = map (\<lambda>pit. (nm, snd pit)) pits"
  by (induction pits arbitrary: c) (simp_all add: new_edges_Cons)

lemma body_edge_links:
  "set (edge_links (snd (add_nodes_body tn obj allports st))) =
     set (edge_links st) \<union> (\<lambda>pit. (node_name_of tn obj st, snd pit)) ` set (concat allports)"
  by (simp add: edge_links_def body_edges links_new_edges)

lemma body_node_names:
  "set (node_names (snd (add_nodes_body tn obj allports st))) =
     insert (node_name_of tn obj st) (set (node_names st))"
  by (auto simp: node_names_def body_saps body_infras node_record_def Let_def)

lemma und_links_sym: "sym (und_links st)"
  by (auto simp: und_links_def sym_def)

lemma body_attached:
  assumes "attached st (R \<union> stub_names allports)"
  shows "attached (snd (add_nodes_body tn obj allports st)) (insert (node_name_of tn obj st) R)"
proof -
  let ?st' = "snd (add_nodes_body tn obj allports st)"
  let ?nm = "node_name_of tn obj st"
  have mono: "und_links st \<subseteq> und_links ?st'"
    by (auto simp: und_links_def body_edge_links)
  have up: "(d, ?nm) \<in> und_links ?st'" if "d \<in> stub_names allports" for d
    using that by (auto simp: und_links_def body_edge_links stub_names_def)
  have "\<exists>r \<in> insert ?nm R. (x, r) \<in> (und_links ?st')\<^sup>*" if "x \<in> set (node_names ?st')" for x
  proof (cases "x \<in> set (node_names st)")
    case True
    with assms obtain r where r: "r \<in> R \<union> stub_names allports" "(x, r) \<in> (und_links st)\<^sup>*"
      unfolding attached_def by blast
    from r(2) mono have xr: "(x, r) \<in> (und_links ?st')\<^sup>*"
      using rtrancl_mono by blast
    show ?thesis
    proof (cases "r \<in> R")
      case True
      with xr show ?thesis by blast
    next
      case False
      with r(1) have "(r, ?nm) \<in> und_links ?st'" using up by blast
      with xr have "(x, ?nm) \<in> (und_links ?st')\<^sup>*" by (rule rtrancl_into_rtrancl)
      then show ?thesis by blast
    qed
  next
    case False
    with that have "x = ?nm" by (simp add: body_node_names)
    then show ?thesis by blast
  qed
  then show ?thesis unfolding attached_def by blast
qed

lemma attached_run:
  "attached st R \<Longrightarrow>
     attached (snd (add_nodes tn obj st))
       (R \<union> stub_names (case fst (add_nodes tn obj st) of None \<Rightarrow> [] | Some p \<Rightarrow> [p]))"
  and attached_children:
  "attached st R \<Longrightarrow>
     attached (snd (add_children tn cs st)) (R \<union> stub_names (fst (add_children tn cs st)))"
proof (induction tn obj st and tn cs st arbitrary: R and R rule: add_nodes_add_children.induct)
  case (1 tn ty oi nm infs cs st)
  let ?obj = "Obj ty oi nm infs cs"
  obtain allports st1 where k: "add_children tn cs st = (allports, st1)"
    by (cases "add_children tn cs st")
  from 1 k have ih: "attached st1 (R \<union> stub_names allports)"
    by fastforce
  show ?case
  proof (cases "allports \<noteq> [] \<or> required_by_type ?obj")
    case True
    then have run: "add_nodes tn ?obj st = add_nodes_body tn ?obj allports st1"
      using k by (simp add: add_nodes_unfold)
    show ?thesis
      unfolding run using body_attached [OF ih, of tn ?obj]
      by (simp add: body_fst)
  next
    case False
    then have "add_nodes tn ?obj st = (None, st1)" "allports = []"
      using k by (simp_all add: add_nodes_unfold)
    with ih show ?thesis by simp
  qed
next
  case (2 tn st)
  then show ?case by simp
next
  case (3 tn c cs st)
  obtain r st1 where a: "add_nodes tn c st = (r, st1)" by (cases "add_nodes tn c st")
  obtain rest st2 where b: "add_children tn cs st1 = (rest, st2)"
    by (cases "add_children tn cs st1")
  let ?S = "stub_names (case r of None \<Rightarrow> [] | Some p \<Rightarrow> [p])"
  from 3(1) [OF 3(3)] a have ih1: "attached st1 (R \<union> ?S)" by simp
  from 3(2) [OF refl a [symmetric] ih1] b have ih2: "attached st2 (R \<union> ?S \<union> stub_names rest)"
    by simp
  show ?case
    using ih2 by (cases r) (simp_all add: a b Un_assoc)
qed

lemma body_records:
  "set (records (snd (add_nodes_body tn obj allports st))) =
     insert (node_record tn obj allports st) (set (records st))"
  unfolding records_def by (rule body_nodes)

lemma node_record_port_ids:
  "node_port_ids (node_record tn obj allports st) =
     map (\<lambda>k. lastfreeid (id_alloc st) + 2 * of_nat k + 1) [0..<length (concat allports)] @
     [lastfreeid (id_alloc st) + 2 * of_nat (length (concat allports))]"
  by (simp add: node_record_def Let_def)

lemma node_record_owns:
  "owns (node_record tn obj allports st)
     (lastfreeid (id_alloc st) + 2 * of_nat (length (concat allports)), node_name_of tn obj st)"
  "k < length (concat allports) \<Longrightarrow>
     owns (node_record tn obj allports st)
       (lastfreeid (id_alloc st) + 2 * of_nat k + 1, node_name_of tn obj st)"
  by (simp_all add: owns_def node_record_port_ids str_member_def)

lemma mk_edge_ports [simp]:
  "uint_member ''src_port'' (mk_edge i nm p pit) = [p]"
  "uint_member ''dst_port'' (mk_edge i nm p pit) = [fst pit]"
  by (simp_all add: uint_member_def mk_edge_def)

lemma und_joined_sym: "sym (und_joined st)"
  by (auto simp: und_joined_def sym_def)

lemma body_und_joined_mono:
  "und_joined st \<subseteq> und_joined (snd (add_nodes_body tn obj allports st))"
proof -
  let ?st' = "snd (add_nodes_body tn obj allports st)"
  have rs: "set (records st) \<subseteq> set (records ?st')" by (auto simp: body_records)
  have es: "set (node_edges st) \<subseteq> set (node_edges ?st')" by (simp add: body_edges)
  have "joined st \<subseteq> joined ?st'"
    unfolding joined_def using rs es by blast
  then show ?thesis unfolding und_joined_def by blast
qed

lemma body_joins_owner:
  assumes pit: "pit \<in> set (concat allports)" and r': "r' \<in> set (records st)" and o: "owns r' pit"
  shows "(r', node_record tn obj allports st) \<in> und_joined (snd (add_nodes_body tn obj allports st))"
proof -
  let ?st' = "snd (add_nodes_body tn obj allports st)"
  let ?rec = "node_record tn obj allports st"
  let ?c = "lastfreeid (id_alloc st)"
  let ?nm = "node_name_of tn obj st"
  from pit obtain k where k: "k < length (concat allports)" and pk: "concat allports ! k = pit"
    by (metis in_set_conv_nth)
  let ?e = "mk_edge (?c + 2 * of_nat k) ?nm (?c + 2 * of_nat k + 1) pit"
  have "?e \<in> set (new_edges ?c ?nm (concat allports))"
    unfolding new_edges_def using k pk by auto
  then have e: "?e \<in> set (node_edges ?st')" by (simp add: body_edges)
  have src: "owns ?rec (?c + 2 * of_nat k + 1, ?nm)" using k by (rule node_record_owns(2))
  have dst: "owns r' (fst pit, snd pit)" using o by simp
  have "(?rec, r') \<in> joined ?st'"
    unfolding joined_def using e src dst r'
    by (auto simp: body_records intro!: bexI [of _ ?e])
  then show ?thesis by (simp add: und_joined_def)
qed

lemma body_hooked:
  assumes "hooked st (R \<union> set (concat allports))"
  shows "\<forall>r \<in> set (records (snd (add_nodes_body tn obj allports st))).
     (\<exists>pit \<in> R. \<exists>r' \<in> set (records (snd (add_nodes_body tn obj allports st))).
        owns r' pit \<and> (r, r') \<in> (und_joined (snd (add_nodes_body tn obj allports st)))\<^sup>*)
     \<or> (r, node_record tn obj allports st) \<in> (und_joined (snd (add_nodes_body tn obj allports st)))\<^sup>*"
proof
  let ?st' = "snd (add_nodes_body tn obj allports st)"
  let ?rec = "node_record tn obj allports st"
  fix r assume r: "r \<in> set (records ?st')"
  show "(\<exists>pit \<in> R. \<exists>r' \<in> set (records ?st'). owns r' pit \<and> (r, r') \<in> (und_joined ?st')\<^sup>*)
     \<or> (r, ?rec) \<in> (und_joined ?st')\<^sup>*"
  proof (cases "r \<in> set (records st)")
    case True
    with assms obtain pit r' where pit: "pit \<in> R \<union> set (concat allports)"
      and r': "r' \<in> set (records st)" "owns r' pit" "(r, r') \<in> (und_joined st)\<^sup>*"
      unfolding hooked_def by blast
    from r'(3) have rr': "(r, r') \<in> (und_joined ?st')\<^sup>*"
      using rtrancl_mono [OF body_und_joined_mono] by blast
    show ?thesis
    proof (cases "pit \<in> R")
      case True
      with r' rr' show ?thesis by (auto simp: body_records)
    next
      case False
      with pit have "pit \<in> set (concat allports)" by simp
      then have "(r', ?rec) \<in> und_joined ?st'" using r'(1,2) by (rule body_joins_owner)
      with rr' have "(r, ?rec) \<in> (und_joined ?st')\<^sup>*" by (rule rtrancl_into_rtrancl)
      then show ?thesis by blast
    qed
  next
    case False
    with r have "r = ?rec" by (simp add: body_records)
    then show ?thesis by simp
  qed
qed

lemma hooked_run:
  "hooked st R \<Longrightarrow>
     (case fst (add_nodes tn obj st) of
        None \<Rightarrow> hooked (snd (add_nodes tn obj st)) R
      | Some ps \<Rightarrow>
          (\<exists>rec \<in> set (records (snd (add_nodes tn obj st))).
             (\<forall>pit \<in> set ps. owns rec pit) \<and>
             (\<forall>r \<in> set (records (snd (add_nodes tn obj st))).
                (\<exists>pit \<in> R. \<exists>r' \<in> set (records (snd (add_nodes tn obj st))).
                   owns r' pit \<and> (r, r') \<in> (und_joined (snd (add_nodes tn obj st)))\<^sup>*)
                \<or> (r, rec) \<in> (und_joined (snd (add_nodes tn obj st)))\<^sup>*)))"
  and hooked_children:
  "hooked st R \<Longrightarrow>
     hooked (snd (add_children tn cs st)) (R \<union> set (concat (fst (add_children tn cs st))))"
proof (induction tn obj st and tn cs st arbitrary: R and R rule: add_nodes_add_children.induct)
  case (1 tn ty oi nm infs cs st)
  let ?obj = "Obj ty oi nm infs cs"
  obtain allports st1 where k: "add_children tn cs st = (allports, st1)"
    by (cases "add_children tn cs st")
  from 1 k have ih: "hooked st1 (R \<union> set (concat allports))"
    by fastforce
  show ?case
  proof (cases "allports \<noteq> [] \<or> required_by_type ?obj")
    case True
    then have run: "add_nodes tn ?obj st = add_nodes_body tn ?obj allports st1"
      using k by (simp add: add_nodes_unfold)
    have "node_record tn ?obj allports st1 \<in> set (records (snd (add_nodes_body tn ?obj allports st1)))"
      by (simp add: body_records)
    moreover have "\<forall>pit \<in> set [(lastfreeid (id_alloc st1) + 2 * of_nat (length (concat allports)),
        node_name_of tn ?obj st1)]. owns (node_record tn ?obj allports st1) pit"
      by (simp add: node_record_owns(1))
    ultimately show ?thesis
      unfolding run body_fst option.case using body_hooked [OF ih, of tn ?obj] by blast
  next
    case False
    then have "add_nodes tn ?obj st = (None, st1)" "allports = []"
      using k by (simp_all add: add_nodes_unfold)
    with ih show ?thesis by simp
  qed
next
  case (2 tn st)
  then show ?case by simp
next
  case (3 tn c cs st)
  obtain res st1 where a: "add_nodes tn c st = (res, st1)" by (cases "add_nodes tn c st")
  obtain rest st2 where b: "add_children tn cs st1 = (rest, st2)"
    by (cases "add_children tn cs st1")
  have ih1: "hooked st1 (R \<union> set (case res of None \<Rightarrow> [] | Some ps \<Rightarrow> ps))"
  proof (cases res)
    case None
    with 3(1) [OF 3(3)] a show ?thesis by simp
  next
    case (Some ps)
    with 3(1) [OF 3(3)] a obtain rec where rec: "rec \<in> set (records st1)"
      "\<forall>pit \<in> set ps. owns rec pit"
      "\<forall>r \<in> set (records st1).
         (\<exists>pit \<in> R. \<exists>r' \<in> set (records st1). owns r' pit \<and> (r, r') \<in> (und_joined st1)\<^sup>*)
         \<or> (r, rec) \<in> (und_joined st1)\<^sup>*"
      by auto
    obtain p nm where ps: "ps = [(p, nm)]"
      using add_nodes_kept [of c tn st] add_nodes_pruned [of c tn st] a Some
      by (cases "required_below c") auto
    show ?thesis
      unfolding hooked_def Some option.case ps using rec unfolding ps by fastforce
  qed
  from 3(2) [OF refl a [symmetric] ih1] b
  have ih2: "hooked st2 (R \<union> set (case res of None \<Rightarrow> [] | Some ps \<Rightarrow> ps) \<union> set (concat rest))"
    by simp
  show ?case
    using ih2 by (cases res) (simp_all add: a b Un_assoc)
qed

lemma records_connected:
  "\<forall>r1 \<in> set (records (add_topology_tree tn root_obj)).
   \<forall>r2 \<in> set (records (add_topology_tree tn root_obj)).
     (r1, r2) \<in> (und_joined (add_topology_tree tn root_obj))\<^sup>*"
proof (intro ballI)
  let ?out = "add_topology_tree tn root_obj"
  fix r1 r2 assume r1: "r1 \<in> set (records ?out)" and r2: "r2 \<in> set (records ?out)"
  have h0: "hooked init_acc {}" by (simp add: hooked_def records_def init_acc_def)
  have sym: "sym ((und_joined ?out)\<^sup>*)" using und_joined_sym by (rule sym_rtrancl)
  show "(r1, r2) \<in> (und_joined ?out)\<^sup>*"
  proof (cases "fst (add_nodes tn root_obj init_acc)")
    case None
    with hooked_run [OF h0, of tn root_obj] have "hooked ?out {}"
      by (simp add: add_topology_tree_def)
    with r1 show ?thesis unfolding hooked_def by blast
  next
    case (Some ps)
    with hooked_run [OF h0, of tn root_obj] obtain rec where
      "\<forall>r \<in> set (records ?out). (r, rec) \<in> (und_joined ?out)\<^sup>*"
      by (auto simp: add_topology_tree_def)
    with r1 r2 have "(r1, rec) \<in> (und_joined ?out)\<^sup>*" "(r2, rec) \<in> (und_joined ?out)\<^sup>*"
      by blast+
    moreover from this(2) sym have "(rec, r2) \<in> (und_joined ?out)\<^sup>*" by (meson symD)
    ultimately show ?thesis by (meson rtrancl_trans)
  qed
qed

text \<open>
  Claim C4. In the output of a run any two emitted node names are joined by a path of
  edges read as undirected links, and so are any two emitted records when an edge is read
  as joining the record that lists its source port under its source node name to the
  record that lists its destination port under its destination node name. A node is pruned
  only when nothing below it is kept, so no pruned node lies between two kept nodes: every
  kept node is linked to its kept parent, up to the root's node.
\<close>

theorem kept_nodes_connected:
  "(\<forall>a \<in> set (node_names (add_topology_tree tn root_obj)).
    \<forall>b \<in> set (node_names (add_topology_tree tn root_obj)).
      (a, b) \<in> (und_links (add_topology_tree tn root_obj))\<^sup>*)
   \<and> (\<forall>r1 \<in> set (records (add_topology_tree tn root_obj)).
      \<forall>r2 \<in> set (records (add_topology_tree tn root_obj)).
        (r1, r2) \<in> (und_joined (add_topology_tree tn root_obj))\<^sup>*)"
proof (intro conjI ballI)
  let ?out = "add_topology_tree tn root_obj"
  fix a b assume a: "a \<in> set (node_names ?out)" and b: "b \<in> set (node_names ?out)"
  have "attached init_acc {}"
    by (simp add: attached_def node_names_def init_acc_def)
  from attached_run [OF this, of tn root_obj]
  have att: "attached ?out
      (stub_names (case fst (add_nodes tn root_obj init_acc) of None \<Rightarrow> [] | Some p \<Rightarrow> [p]))"
    by (simp add: add_topology_tree_def)
  from att a obtain r where ar: "(a, r) \<in> (und_links ?out)\<^sup>*"
    and r: "r \<in> stub_names (case fst (add_nodes tn root_obj init_acc) of None \<Rightarrow> [] | Some p \<Rightarrow> [p])"
    unfolding attached_def by blast
  from att b obtain r' where br: "(b, r') \<in> (und_links ?out)\<^sup>*"
    and r': "r' \<in> stub_names (case fst (add_nodes tn root_obj init_acc) of None \<Rightarrow> [] | Some p \<Rightarrow> [p])"
    unfolding attached_def by blast
  have one: "r = r'"
  proof (cases "required_below root_obj")
    case True
    then obtain p nm where "fst (add_nodes tn root_obj init_acc) = Some [(p, nm)]"
      using add_nodes_kept by blast
    with r r' show ?thesis by simp
  next
    case False
    then have "fst (add_nodes tn root_obj init_acc) = None" by (simp add: add_nodes_pruned)
    with r show ?thesis by simp
  qed
  have "sym ((und_links ?out)\<^sup>*)" using und_links_sym by (rule sym_rtrancl)
  with br have "(r', b) \<in> (und_links ?out)\<^sup>*" by (rule symD [rotated])
  with ar one show "(a, b) \<in> (und_links ?out)\<^sup>*" by simp
next
  fix r1 r2
  assume "r1 \<in> set (records (add_topology_tree tn root_obj))"
    and "r2 \<in> set (records (add_topology_tree tn root_obj))"
  then show "(r1, r2) \<in> (und_joined (add_topology_tree tn root_obj))\<^sup>*"
    using records_connected by blast
qed

theorem kept_nodes_connected_witness:
  "(''PU#0'', ''eth0'') \<in> (und_links (add_topology_tree plain_label small_machine))\<^sup>*
   \<and> (hd (node_saps (add_topology_tree plain_label small_machine)),
        hd (node_infras (add_topology_tree plain_label small_machine)))
       \<in> (und_joined (add_topology_tree plain_label small_machine))\<^sup>*"
proof -
  let ?out = "add_topology_tree plain_label small_machine"
  have a: "''PU#0'' \<in> set (node_names ?out)" and b: "''eth0'' \<in> set (node_names ?out)"
    by (simp_all add: small_run_names)
  have r1: "hd (node_saps ?out) \<in> set (records ?out)"
    and r2: "hd (node_infras ?out) \<in> set (records ?out)"
    using small_run_nonempty by (simp_all add: records_def)
  from kept_nodes_connected [of plain_label small_machine] a b r1 r2 show ?thesis by blast
qed

section \<open>Two runs on the same tree\<close>

lemma shift_acc_simps [simp]:
  "node_infras (shift_acc d st) = map (shift_json d) (node_infras st)"
  "node_saps (shift_acc d st) = map (shift_json d) (node_saps st)"
  "node_edges (shift_acc d st) = map (shift_json d) (node_edges st)"
  "lastfreeid (id_alloc (shift_acc d st)) = lastfreeid (id_alloc st) + d"
  "lastfreeidfortype (id_alloc (shift_acc d st)) = lastfreeidfortype (id_alloc st)"
  "acc.more (shift_acc d st) = acc.more st"
  "ID.more (id_alloc (shift_acc d st)) = ID.more (id_alloc st)"
  by (simp_all add: shift_acc_def)

lemma get_node_name_snd_lastfreeid:
  "snd (get_node_name tn obj (s\<lparr>lastfreeid := c\<rparr>)) = (snd (get_node_name tn obj s))\<lparr>lastfreeid := c\<rparr>"
  by (auto simp: get_node_name_def get_next_id_for_type_def get_node_type_def Let_def
      split: prod.splits option.splits)

lemma node_name_of_shift [simp]: "node_name_of tn obj (shift_acc d st) = node_name_of tn obj st"
  by (simp add: node_name_of_def shift_acc_def get_node_name_fst_lastfreeid)

lemma shift_new_ports: "new_ports (c + d) n = map (shift_json d) (new_ports c n)"
  by (simp add: new_ports_def mk_port_def algebra_simps)

lemma shift_new_edges:
  "new_edges (c + d) nm (shift_ports d pits) = map (shift_json d) (new_edges c nm pits)"
  by (simp add: new_edges_def mk_edge_def shift_ports_def algebra_simps)

lemma shift_emit_node:
  "emit_node obj nm (map (shift_json d) ports) = shift_json d (emit_node obj nm ports)"
  by (simp add: emit_node_def json_of_appended_def)

lemma concat_shift_ports:
  "concat (map (shift_ports d) allports) = shift_ports d (concat allports)"
  by (induction allports) (simp_all add: shift_ports_def)

lemma length_shift_ports [simp]: "length (shift_ports d ps) = length ps"
  by (simp add: shift_ports_def)

lemma shift_node_record:
  "node_record tn obj (map (shift_ports d) allports) (shift_acc d st) =
     shift_json d (node_record tn obj allports st)"
proof -
  have p: "mk_port (c + d + x) = shift_json d (mk_port (c + x))" for c x
    by (simp add: mk_port_def algebra_simps)
  show ?thesis
    by (simp add: node_record_def Let_def concat_shift_ports shift_new_ports p
        shift_emit_node [symmetric])
qed

lemma body_shift:
  "add_nodes_body tn obj (map (shift_ports d) allports) (shift_acc d st) =
     shift_result d (add_nodes_body tn obj allports st)"
proof (rule prod_eqI)
  show "fst (add_nodes_body tn obj (map (shift_ports d) allports) (shift_acc d st)) =
      fst (shift_result d (add_nodes_body tn obj allports st))"
    by (simp add: shift_result_def body_fst concat_shift_ports shift_ports_def algebra_simps)
next
  let ?l = "snd (add_nodes_body tn obj (map (shift_ports d) allports) (shift_acc d st))"
  let ?r = "shift_acc d (snd (add_nodes_body tn obj allports st))"
  have idl: "id_alloc ?l = id_alloc ?r"
  proof (rule ID.equality)
    show "lastfreeid (id_alloc ?l) = lastfreeid (id_alloc ?r)"
      by (simp add: body_lastfreeid concat_shift_ports algebra_simps)
    show "lastfreeidfortype (id_alloc ?l) = lastfreeidfortype (id_alloc ?r)"
      by (simp add: body_fortype shift_acc_def get_node_name_snd_lastfreeid)
    show "ID.more (id_alloc ?l) = ID.more (id_alloc ?r)" by simp
  qed
  have "?l = ?r"
  proof (rule acc.equality)
    show "node_infras ?l = node_infras ?r"
      by (simp add: body_infras shift_node_record)
    show "node_saps ?l = node_saps ?r"
      by (simp add: body_saps shift_node_record)
    show "node_edges ?l = node_edges ?r"
      by (simp add: body_edges concat_shift_ports shift_new_edges)
    show "id_alloc ?l = id_alloc ?r" by (rule idl)
    show "acc.more ?l = acc.more ?r" by simp
  qed
  then show "snd (add_nodes_body tn obj (map (shift_ports d) allports) (shift_acc d st)) =
      snd (shift_result d (add_nodes_body tn obj allports st))"
    by (simp add: shift_result_def)
qed

lemma shift_run:
  "add_nodes tn obj (shift_acc d st) = shift_result d (add_nodes tn obj st)"
  and shift_children:
  "add_children tn cs (shift_acc d st) =
     (map (shift_ports d) (fst (add_children tn cs st)), shift_acc d (snd (add_children tn cs st)))"
proof (induction tn obj st and tn cs st rule: add_nodes_add_children.induct)
  case (1 tn ty oi nm infs cs st)
  let ?obj = "Obj ty oi nm infs cs"
  obtain allports st1 where k: "add_children tn cs st = (allports, st1)"
    by (cases "add_children tn cs st")
  from 1 k have k': "add_children tn cs (shift_acc d st) =
      (map (shift_ports d) allports, shift_acc d st1)" by simp
  show ?case
    by (simp add: add_nodes_unfold k k' body_shift) (simp add: shift_result_def)
next
  case (2 tn st)
  show ?case by simp
next
  case (3 tn c cs st)
  obtain r st1 where a: "add_nodes tn c st = (r, st1)" by (cases "add_nodes tn c st")
  obtain rest st2 where b: "add_children tn cs st1 = (rest, st2)"
    by (cases "add_children tn cs st1")
  from 3(1) a have a': "add_nodes tn c (shift_acc d st) =
      (map_option (shift_ports d) r, shift_acc d st1)"
    by (simp add: shift_result_def)
  from 3(2) [OF refl a [symmetric]] b have b': "add_children tn cs (shift_acc d st1) =
      (map (shift_ports d) rest, shift_acc d st2)" by simp
  show ?case
    by (cases r) (simp_all add: a b a' b')
qed

text \<open>
  Claim C9. Two runs on the same tree whose allocators agree on the per-label counters
  produce the same result up to the difference of their global counters, which is added to
  every id: the same records with the same names in the same order, the same edges between
  the same nodes. In particular two runs that both start from a fresh allocator produce
  identical results, and that result is the one of \<^verbatim>\<open>add_topology_tree\<close>.
\<close>

theorem runs_agree_up_to_offset:
  "(lastfreeidfortype a1 = lastfreeidfortype a2 \<longrightarrow>
      run_from tn obj a2 = shift_result (lastfreeid a2 - lastfreeid a1) (run_from tn obj a1))
   \<and> (a1 = new_ID \<and> a2 = new_ID \<longrightarrow>
      run_from tn obj a1 = run_from tn obj a2 \<and> snd (run_from tn obj a1) = add_topology_tree tn obj)"
proof (intro conjI impI)
  assume same: "lastfreeidfortype a1 = lastfreeidfortype a2"
  let ?d = "lastfreeid a2 - lastfreeid a1"
  have "a2 = a1\<lparr>lastfreeid := lastfreeid a1 + ?d\<rparr>"
    using same by (intro ID.equality) simp_all
  then have "\<lparr>node_infras = [], node_saps = [], node_edges = [], id_alloc = a2\<rparr> =
      shift_acc ?d \<lparr>node_infras = [], node_saps = [], node_edges = [], id_alloc = a1\<rparr>"
    by (simp add: shift_acc_def)
  then show "run_from tn obj a2 = shift_result ?d (run_from tn obj a1)"
    unfolding run_from_def by (simp only: shift_run)
next
  assume "a1 = new_ID \<and> a2 = new_ID"
  then show "run_from tn obj a1 = run_from tn obj a2" by simp
next
  assume "a1 = new_ID \<and> a2 = new_ID"
  then show "snd (run_from tn obj a1) = add_topology_tree tn obj"
    by (simp add: run_from_def add_topology_tree_def init_acc_def)
qed

theorem runs_agree_up_to_offset_witness:
  "fst (run_from plain_label small_machine (new_ID\<lparr>lastfreeid := 5\<rparr>)) = Some [(14, ''Machine#0'')]
   \<and> snd (run_from plain_label small_machine new_ID) = add_topology_tree plain_label small_machine"
proof -
  have z: "fst (run_from plain_label small_machine new_ID) = Some [(9, ''Machine#0'')]"
    unfolding small_machine_def run_from_def by code_simp
  have same: "lastfreeidfortype new_ID = lastfreeidfortype (new_ID\<lparr>lastfreeid := 5\<rparr>)" by simp
  have d: "lastfreeid (new_ID\<lparr>lastfreeid := 5\<rparr>) - lastfreeid new_ID = 5"
    by (simp add: new_ID_def)
  from runs_agree_up_to_offset [of new_ID "new_ID\<lparr>lastfreeid := 5\<rparr>" plain_label small_machine]
    same
  have "run_from plain_label small_machine (new_ID\<lparr>lastfreeid := 5\<rparr>) =
      shift_result 5 (run_from plain_label small_machine new_ID)"
    unfolding d by blast
  then have 1: "fst (run_from plain_label small_machine (new_ID\<lparr>lastfreeid := 5\<rparr>)) =
      Some [(14, ''Machine#0'')]"
    by (simp add: shift_result_def z shift_ports_def)
  from runs_agree_up_to_offset [of new_ID new_ID plain_label small_machine]
  have 2: "snd (run_from plain_label small_machine new_ID) =
      add_topology_tree plain_label small_machine" by blast
  from 1 2 show ?thesis by blast
qed

end
